theory Spec2Isabelle
  imports Main "HOL-Library.Sublist"
begin

section \<open>JSON values\<close>

text \<open>
  Tool arguments, plan contents and persisted messages are JSON documents. A JSON
  object is kept as its list of key/value pairs; looking a key up is \<open>map_of\<close>.
  Numbers are integers here: no property below depends on a fractional number.
\<close>

datatype json =
    JNull
  | JBool bool
  | JNum int
  | JStr string
  | JList "json list"
  | JObj "(string \<times> json) list"

text \<open>
  Python's \<^verbatim>\<open>k in v\<close> for a string \<open>k\<close>: key membership on a dict, element membership
  on a list, substring on a string, and TypeError (\<open>None\<close>) on anything else.
\<close>

fun py_contains :: "string \<Rightarrow> json \<Rightarrow> bool option" where
  "py_contains k (JObj kvs) = Some (map_of kvs k \<noteq> None)"
| "py_contains k (JList xs) = Some (JStr k \<in> set xs)"
| "py_contains k (JStr s) = Some (sublist k s)"
| "py_contains k v = None"

text \<open>
  Python's \<^verbatim>\<open>v[k]\<close> with a string key: defined on a dict that has the key; a missing
  key, or a value that is not a dict, raises (\<open>None\<close>).
\<close>

fun py_getitem :: "json \<Rightarrow> string \<Rightarrow> json option" where
  "py_getitem (JObj kvs) k = map_of kvs k"
| "py_getitem v k = None"

section \<open>The process-wide state manager (cache/redis\_cache.py)\<close>

text \<open>
  \<^verbatim>\<open>RedisStateManager._store\<close> maps a namespaced key to a value and an expiry time.
  Only the entries written by \<^verbatim>\<open>set_plan\<close> are modelled; the discovery entries live
  under keys with another key type and never meet them. A stored plan is the
  \<^verbatim>\<open>json.dumps\<close> text of the plan dict and is read back with \<^verbatim>\<open>json.loads\<close>: the
  store of the model holds the plan itself. Time is the reading of \<^verbatim>\<open>time.time()\<close>,
  one reading per operation, in seconds.
\<close>

record plan =
  title :: json
  ctx :: json
  steps :: "json list"
  step_statuses :: "string list"
  step_findings :: "string list"
  current_step_index :: int
  created_at :: int

record entry =
  stored :: plan
  expiry :: int

type_synonym store = "string \<rightharpoonup> entry"

definition app_name :: string where
  "app_name = ''micro_cc''"

fun join_colon :: "string list \<Rightarrow> string" where
  "join_colon [] = []"
| "join_colon [p] = p"
| "join_colon (p # q # ps) = p @ '':'' @ join_colon (q # ps)"

definition make_key :: "string \<Rightarrow> string list \<Rightarrow> string" where
  "make_key key_type parts = app_name @ '':'' @ key_type @ '':'' @ join_colon parts"

definition set_with_ttl :: "int \<Rightarrow> string \<Rightarrow> plan \<Rightarrow> int \<Rightarrow> store \<Rightarrow> store" where
  "set_with_ttl now key v ttl s = s(key \<mapsto> \<lparr>stored = v, expiry = now + ttl\<rparr>)"

text \<open>\<^verbatim>\<open>_get\<close>: an expired entry is deleted by the read and reported absent.\<close>

definition get_entry :: "int \<Rightarrow> string \<Rightarrow> store \<Rightarrow> plan option \<times> store" where
  "get_entry now key s =
     (case s key of
        None \<Rightarrow> (None, s)
      | Some e \<Rightarrow> if now > expiry e then (None, s(key := None)) else (Some (stored e), s))"

definition set_plan :: "int \<Rightarrow> string \<Rightarrow> plan \<Rightarrow> store \<Rightarrow> store" where
  "set_plan now project_dir p s = set_with_ttl now (make_key ''plan'' [project_dir]) p 3600 s"

definition get_plan :: "int \<Rightarrow> string \<Rightarrow> store \<Rightarrow> plan option \<times> store" where
  "get_plan now project_dir s = get_entry now (make_key ''plan'' [project_dir]) s"

text \<open>One sweep of the background reaper \<^verbatim>\<open>_cleanup_expired\<close>.\<close>

definition cleanup_expired :: "int \<Rightarrow> store \<Rightarrow> store" where
  "cleanup_expired now s =
     (\<lambda>k. case s k of None \<Rightarrow> None | Some e \<Rightarrow> if now > expiry e then None else Some e)"

section \<open>The plan tools (tools/plan\_tools\_.py)\<close>

text \<open>
  Every tool returns a text to the model. The texts are kept apart by a constructor
  each; an exception that leaves the tool is a constructor too.
\<close>

datatype plan_msg =
    ErrEmptyContent
  | ErrMissingFields
  | ErrStepsNotNonEmptyList
  | ErrInvalidJSON
  | PlanCreated bool
  | ErrNoPlan
  | ErrStepIndexNotInteger string
  | ErrInvalidStepIndex int
  | ErrInvalidStatus
  | StepUpdated int
  | StepAdded string nat int
  | RaisedTypeError
  | RaisedIndexError

fun reports_success :: "plan_msg \<Rightarrow> bool" where
  "reports_success (PlanCreated replaced) = True"
| "reports_success (StepUpdated i) = True"
| "reports_success (StepAdded d n c) = True"
| "reports_success m = False"

definition make_plan ::
  "(string \<Rightarrow> json option) \<Rightarrow> int \<Rightarrow> string \<Rightarrow> string \<Rightarrow> store \<Rightarrow> plan_msg \<times> store" where
  "make_plan json_loads now content project_path s =
     (if content = [] then (ErrEmptyContent, s)
      else case json_loads content of
        None \<Rightarrow> (ErrInvalidJSON, s)
      | Some plan_data \<Rightarrow>
         (case py_contains ''title'' plan_data of
            None \<Rightarrow> (RaisedTypeError, s)
          | Some False \<Rightarrow> (ErrMissingFields, s)
          | Some True \<Rightarrow>
             (case py_contains ''steps'' plan_data of
                None \<Rightarrow> (RaisedTypeError, s)
              | Some False \<Rightarrow> (ErrMissingFields, s)
              | Some True \<Rightarrow>
                 (case py_getitem plan_data ''steps'' of
                    None \<Rightarrow> (RaisedTypeError, s)
                  | Some (JList (x # xs)) \<Rightarrow>
                     (case py_getitem plan_data ''title'' of
                        None \<Rightarrow> (RaisedTypeError, s)
                      | Some t \<Rightarrow>
                         (let structured_plan =
                                \<lparr>title = t,
                                 ctx = (case py_getitem plan_data ''context'' of
                                          None \<Rightarrow> JStr [] | Some c \<Rightarrow> c),
                                 steps = x # xs,
                                 step_statuses = replicate (length (x # xs)) ''not_started'',
                                 step_findings = replicate (length (x # xs)) [],
                                 current_step_index = 0,
                                 created_at = now\<rparr>;
                              (prev_plan, s1) = get_plan now project_path s;
                              s2 = set_plan now project_path structured_plan s1
                          in (PlanCreated (prev_plan \<noteq> None), s2)))
                  | Some other \<Rightarrow> (ErrStepsNotNonEmptyList, s)))))"

text \<open>
  The \<^verbatim>\<open>step_index\<close> argument of \<^verbatim>\<open>update_step\<close>: omitted, an integer, or a string
  that \<^verbatim>\<open>int()\<close> has to read. \<^verbatim>\<open>int()\<close> on a string is a parameter \<open>py_int\<close>
  (\<open>None\<close> for ValueError).
\<close>

datatype index_arg = Omitted | IntArg int | StrArg string

text \<open>\<^verbatim>\<open>xs[i] = v\<close> for \<open>0 \<le> i\<close>: IndexError (\<open>None\<close>) when \<open>i\<close> is past the end.\<close>

definition setitem :: "'a list \<Rightarrow> int \<Rightarrow> 'a \<Rightarrow> 'a list option" where
  "setitem xs i v = (if nat i < length xs then Some (xs[nat i := v]) else None)"

definition valid_statuses :: "string list" where
  "valid_statuses = [''not_started'', ''in_progress'', ''completed'', ''blocked'']"

text \<open>The status part of \<^verbatim>\<open>update_step\<close> (source lines 98 to 110).\<close>

definition apply_status :: "int \<Rightarrow> string option \<Rightarrow> plan \<Rightarrow> plan_msg + plan" where
  "apply_status step_index status p =
     (case status of
        None \<Rightarrow> Inr p
      | Some st \<Rightarrow>
          if st = [] then Inr p
          else if st \<notin> set valid_statuses then Inl ErrInvalidStatus
          else (case setitem (step_statuses p) step_index st of
                  None \<Rightarrow> Inl RaisedIndexError
                | Some sts \<Rightarrow>
                    (let p1 = p\<lparr>step_statuses := sts\<rparr>
                     in if st = ''completed'' \<and> step_index = current_step_index p1
                        then (let next_step = step_index + 1
                              in if next_step < int (length (steps p1))
                                 then Inr (p1\<lparr>current_step_index := next_step\<rparr>)
                                 else Inr (p1\<lparr>current_step_index := int (length (steps p1))\<rparr>))
                        else Inr p1)))"

text \<open>The findings part of \<^verbatim>\<open>update_step\<close> (source lines 112 and 113).\<close>

definition apply_findings :: "int \<Rightarrow> string option \<Rightarrow> plan \<Rightarrow> plan_msg + plan" where
  "apply_findings step_index findings p =
     (case findings of
        None \<Rightarrow> Inr p
      | Some f \<Rightarrow>
          if f = [] then Inr p
          else (case setitem (step_findings p) step_index f of
                  None \<Rightarrow> Inl RaisedIndexError
                | Some fs \<Rightarrow> Inr (p\<lparr>step_findings := fs\<rparr>)))"

definition resolve_index :: "(string \<Rightarrow> int option) \<Rightarrow> index_arg \<Rightarrow> plan \<Rightarrow> plan_msg + int" where
  "resolve_index py_int step_index p =
     (case step_index of
        Omitted \<Rightarrow> Inr (current_step_index p)
      | IntArg i \<Rightarrow> Inr i
      | StrArg str \<Rightarrow> (case py_int str of None \<Rightarrow> Inl (ErrStepIndexNotInteger str) | Some i \<Rightarrow> Inr i))"

definition update_step ::
  "(string \<Rightarrow> int option) \<Rightarrow> int \<Rightarrow> index_arg \<Rightarrow> string option \<Rightarrow> string option \<Rightarrow> string \<Rightarrow> store
     \<Rightarrow> plan_msg \<times> store" where
  "update_step py_int now step_index status findings project_path s =
     (case get_plan now project_path s of
        (None, s1) \<Rightarrow> (ErrNoPlan, s1)
      | (Some p, s1) \<Rightarrow>
         (case resolve_index py_int step_index p of
            Inl err \<Rightarrow> (err, s1)
          | Inr i \<Rightarrow>
              if i < 0 \<or> i \<ge> int (length (steps p)) then (ErrInvalidStepIndex i, s1)
              else (case apply_status i status p of
                      Inl err \<Rightarrow> (err, s1)
                    | Inr p1 \<Rightarrow>
                       (case apply_findings i findings p1 of
                          Inl err \<Rightarrow> (err, s1)
                        | Inr p2 \<Rightarrow> (StepUpdated i, set_plan now project_path p2 s1)))))"

definition add_step :: "int \<Rightarrow> string \<Rightarrow> string \<Rightarrow> store \<Rightarrow> plan_msg \<times> store" where
  "add_step now step_description project_path s =
     (case get_plan now project_path s of
        (None, s1) \<Rightarrow> (ErrNoPlan, s1)
      | (Some p, s1) \<Rightarrow>
         (let p1 = p\<lparr>steps := steps p @ [JStr step_description],
                      step_statuses := step_statuses p @ [''not_started''],
                      step_findings := step_findings p @ [[]]\<rparr>;
              s2 = set_plan now project_path p1 s1;
              total_steps = length (steps p1);
              current_step = current_step_index p1 + 1
          in (StepAdded step_description total_steps current_step, s2)))"

text \<open>
  A call of one of the three plan tools, as the dispatcher \<^verbatim>\<open>execute_tool_call\<close> makes
  it: the tool's name selects the function, the arguments come from the model.
\<close>

datatype plan_call =
    MakePlan string
  | UpdateStep index_arg "string option" "string option"
  | AddStep string

fun plan_tool ::
  "(string \<Rightarrow> json option) \<Rightarrow> (string \<Rightarrow> int option) \<Rightarrow> int \<Rightarrow> plan_call \<Rightarrow> string \<Rightarrow> store
     \<Rightarrow> plan_msg \<times> store" where
  "plan_tool json_loads py_int now (MakePlan content) project_path s =
     make_plan json_loads now content project_path s"
| "plan_tool json_loads py_int now (UpdateStep step_index status findings) project_path s =
     update_step py_int now step_index status findings project_path s"
| "plan_tool json_loads py_int now (AddStep step_description) project_path s =
     add_step now step_description project_path s"

text \<open>
  The stores the program can be in: it starts empty, and only the three tools and the
  reaper write it.
\<close>

inductive reachable :: "store \<Rightarrow> bool" where
  start: "reachable Map.empty"
| called: "reachable s \<Longrightarrow> reachable (snd (plan_tool json_loads py_int now call project_path s))"
| reaped: "reachable s \<Longrightarrow> reachable (cleanup_expired now s)"

text \<open>The invariant of the data model: the three lists of a plan have one length.\<close>

definition plan_ok :: "plan \<Rightarrow> bool" where
  "plan_ok p \<longleftrightarrow>
     length (steps p) = length (step_statuses p) \<and> length (step_statuses p) = length (step_findings p)"

definition store_ok :: "store \<Rightarrow> bool" where
  "store_ok s \<longleftrightarrow> (\<forall>e \<in> ran s. plan_ok (stored e) \<and> 0 \<le> current_step_index (stored e))"

text \<open>The plan a project has at a given time, if any.\<close>

definition plan_of :: "int \<Rightarrow> string \<Rightarrow> store \<Rightarrow> plan option" where
  "plan_of now project_path s = fst (get_plan now project_path s)"

subsection \<open>A concrete session\<close>

text \<open>
  The scenario of the specification: a plan with the steps A and B for the project
  \<open>proj\<close>, created at time 0. \<open>example_loads\<close> reads the one document of the scenario
  and \<open>example_int\<close> the two numerals it needs.
\<close>

definition quoted :: "string \<Rightarrow> string" where
  "quoted str = CHR 0x22 # str @ [CHR 0x22]"

definition example_content :: string where
  "example_content =
     ''{'' @ quoted ''title'' @ '': '' @ quoted ''T'' @ '', '' @ quoted ''steps'' @ '': [''
       @ quoted ''A'' @ '', '' @ quoted ''B'' @ '']}''"

definition example_loads :: "string \<Rightarrow> json option" where
  "example_loads content =
     (if content = example_content
      then Some (JObj [(''title'', JStr ''T''), (''steps'', JList [JStr ''A'', JStr ''B''])])
      else None)"

definition example_int :: "string \<Rightarrow> int option" where
  "example_int str = (if str = ''0'' then Some 0 else if str = ''1'' then Some 1 else None)"

definition example_store :: store where
  "example_store = snd (make_plan example_loads 0 example_content ''proj'' Map.empty)"

definition example_store_found :: store where
  "example_store_found =
     snd (update_step example_int 0 (IntArg 0) None (Some ''old'') ''proj'' example_store)"

section \<open>Messages and the transcript store (utils/msg\_store\_.py)\<close>

text \<open>
  A message has a role and a content that is a plain string or a list of typed blocks
  (the data model of the specification). A block is what the loop builds as a dict and
  what the Anthropic SDK returns as an object with the same fields: thinking (text and
  signature), text, tool\_use (id, name, input) and tool\_result (tool\_use\_id, content).
\<close>

datatype block =
    Thinking string string
  | Text string
  | ToolUse string string json
  | ToolResult string string

datatype content = Str string | Blocks "block list"

record message =
  role :: string
  content :: content

text \<open>
  \<^verbatim>\<open>_normalize_message\<close>: the record written to the file. The loop over the items skips
  thinking blocks and copies the other three kinds; a list left with a single text
  block is unwrapped to its string. \<open>ts\<close> is the clock reading.
\<close>

record nmessage =
  nrole :: string
  ts :: string
  ncontent :: content

fun normalize_items :: "block list \<Rightarrow> block list" where
  "normalize_items [] = []"
| "normalize_items (Thinking t sg # items) = normalize_items items"
| "normalize_items (ToolUse i n inp # items) = ToolUse i n inp # normalize_items items"
| "normalize_items (Text t # items) = Text t # normalize_items items"
| "normalize_items (ToolResult i c # items) = ToolResult i c # normalize_items items"

text \<open>Source lines 124 to 126: a list that is exactly one text block becomes its text.\<close>

definition unwrap_single :: "block list \<Rightarrow> content" where
  "unwrap_single kept = (case kept of [Text t] \<Rightarrow> Str t | other \<Rightarrow> Blocks kept)"

definition normalize_message :: "string \<Rightarrow> message \<Rightarrow> nmessage" where
  "normalize_message now msg =
     \<lparr>nrole = role msg,
      ts = now,
      ncontent = (case content msg of
                    Str str \<Rightarrow> Str str
                  | Blocks items \<Rightarrow> unwrap_single (normalize_items items))\<rparr>"

definition reconstruct_message :: "nmessage \<Rightarrow> message" where
  "reconstruct_message normalized = \<lparr>role = nrole normalized, content = ncontent normalized\<rparr>"

text \<open>
  The file \<^verbatim>\<open>messages.jsonl\<close> is a list of lines. A line is blank, or it is not JSON,
  or it is the \<^verbatim>\<open>json.dumps\<close> text of a normalized message, which \<^verbatim>\<open>json.loads\<close> reads
  back as it was. The storage directory is a function of the project path (a hash
  of the normalized absolute path, taken as the parameter \<open>storage_dir\<close>); the disk maps
  a directory to its file, if it exists.
\<close>

datatype line = Blank | Malformed string | JsonLine nmessage

type_synonym disk = "string \<rightharpoonup> line list"

definition store_msgs :: "(string \<Rightarrow> string) \<Rightarrow> string \<Rightarrow> string \<Rightarrow> message list \<Rightarrow> disk \<Rightarrow> disk" where
  "store_msgs storage_dir now project_dir msgs d =
     d(storage_dir project_dir \<mapsto> map (\<lambda>msg. JsonLine (normalize_message now msg)) msgs)"

fun load_lines :: "line list \<Rightarrow> message list" where
  "load_lines [] = []"
| "load_lines (Blank # ls) = load_lines ls"
| "load_lines (Malformed str # ls) = load_lines ls"
| "load_lines (JsonLine normalized # ls) = reconstruct_message normalized # load_lines ls"

definition load_msgs :: "(string \<Rightarrow> string) \<Rightarrow> string \<Rightarrow> disk \<Rightarrow> message list" where
  "load_msgs storage_dir project_dir d =
     (case d (storage_dir project_dir) of None \<Rightarrow> [] | Some ls \<Rightarrow> load_lines ls)"

definition erase_msgs :: "(string \<Rightarrow> string) \<Rightarrow> string \<Rightarrow> disk \<Rightarrow> disk" where
  "erase_msgs storage_dir project_dir d = d(storage_dir project_dir := None)"

subsection \<open>The round trip as the specification words it\<close>

text \<open>
  The specification describes the history read back as the history written, with
  the thinking blocks removed from block lists and a content list that consists of a
  single text block unwrapped to a plain string.
\<close>

fun is_thinking :: "block \<Rightarrow> bool" where
  "is_thinking (Thinking t sg) = True"
| "is_thinking b = False"

definition spec_remove_thinking :: "message \<Rightarrow> message" where
  "spec_remove_thinking msg =
     (case content msg of
        Str str \<Rightarrow> msg
      | Blocks items \<Rightarrow> msg\<lparr>content := Blocks (filter (\<lambda>b. \<not> is_thinking b) items)\<rparr>)"

definition spec_unwrap_single_text :: "message \<Rightarrow> message" where
  "spec_unwrap_single_text msg =
     (case content msg of
        Blocks [Text t] \<Rightarrow> msg\<lparr>content := Str t\<rparr>
      | other \<Rightarrow> msg)"

definition spec_normalized :: "message list \<Rightarrow> message list" where
  "spec_normalized h = map (\<lambda>msg. spec_unwrap_single_text (spec_remove_thinking msg)) h"

section \<open>The agent loop (claude\_loop\_.py)\<close>

subsection \<open>What the loop reads from a model response\<close>

type_synonym tool_use = "string \<times> string \<times> json"

definition tu_id :: "tool_use \<Rightarrow> string" where
  "tu_id tb = fst tb"

definition tu_name :: "tool_use \<Rightarrow> string" where
  "tu_name tb = fst (snd tb)"

definition tu_input :: "tool_use \<Rightarrow> json" where
  "tu_input tb = snd (snd tb)"

text \<open>The first thinking block, the first text block and all tool\_use blocks (lines 173 to 181).\<close>

fun first_thinking :: "block list \<Rightarrow> (string \<times> string) option" where
  "first_thinking [] = None"
| "first_thinking (Thinking t sg # bs) = Some (t, sg)"
| "first_thinking (b # bs) = first_thinking bs"

fun first_text :: "block list \<Rightarrow> string option" where
  "first_text [] = None"
| "first_text (Text t # bs) = Some t"
| "first_text (b # bs) = first_text bs"

fun tool_uses :: "block list \<Rightarrow> tool_use list" where
  "tool_uses [] = []"
| "tool_uses (ToolUse i n inp # bs) = (i, n, inp) # tool_uses bs"
| "tool_uses (b # bs) = tool_uses bs"

subsection \<open>Events, effects and tool results\<close>

text \<open>The tagged events the generator yields to its caller.\<close>

datatype event =
    Status string
  | ThinkingEv string
  | TextEv string
  | ToolCall string json
  | ApprovalRequest string json
  | ToolResultEv string string
  | Cancelled
  | FinalText string
  | ErrorEv string
  | Done

text \<open>
  Everything the loop does to the outside, in the order it does it: it yields an
  event, it calls \<^verbatim>\<open>store_msgs\<close> with a history, it hands a request to
  \<^verbatim>\<open>execute_tool_call\<close>, it records discovered names in the state manager.
\<close>

datatype effect =
    Emit event
  | Store "message list"
  | Exec tool_use
  | Discover "string list" "string list"

text \<open>
  What \<^verbatim>\<open>execute_tool_call\<close> returns: a string (also for an unknown tool and for a
  tool that raised), the dict of \<^verbatim>\<open>search_tools\<close> (its \<^verbatim>\<open>str()\<close> text and the two name
  lists), or \<^verbatim>\<open>None\<close>.
\<close>

datatype result = RStr string | RDict string "string list" "string list" | RNone

fun py_str :: "result \<Rightarrow> string" where
  "py_str (RStr str) = str"
| "py_str (RDict repr dts dms) = repr"
| "py_str RNone = ''None''"

text \<open>Line 275: \<^verbatim>\<open>str(result) if isinstance(result, dict) else (result or "")\<close>.\<close>

fun result_content :: "result \<Rightarrow> string" where
  "result_content (RDict repr dts dms) = repr"
| "result_content (RStr str) = str"
| "result_content RNone = []"

definition DANGEROUS_TOOLS :: "string set" where
  "DANGEROUS_TOOLS = {''bash_'', ''edit_'', ''write_''}"

definition default_tools :: "string list" where
  "default_tools =
     [''bash_'', ''read_'', ''write_'', ''edit_'', ''glob_'', ''grep_'', ''search_tools'',
      ''make_plan'', ''update_step'', ''show_full_plan'', ''add_step'', ''read_skill'',
      ''list_skills'']"

text \<open>The keys of the dict \<^verbatim>\<open>tools\<close>: the core tools and the discovered ones.\<close>

definition tool_names :: "string list \<Rightarrow> string list" where
  "tool_names discovered_tools = default_tools @ discovered_tools"

subsection \<open>The environment of one iteration\<close>

text \<open>
  One iteration of \<^verbatim>\<open>while True\<close> asks the outside world five things: the watcher for
  file changes, the state manager for the reminder of the active plan, the model for a
  response to the trimmed messages, the consumer of the events for its approval
  decisions, and the tools for their results. \<open>decisions\<close> holds, for the request at
  each position of the local batch, the value of its cell \<^verbatim>\<open>approval["approved"]\<close> when
  the generator resumes (\<open>None\<close>: the cell was not written; a position past the end of
  the list was not written either). \<open>completions\<close> lists the tasks of
  \<^verbatim>\<open>asyncio.gather\<close> in the order they complete, each with its position in the batch and
  its result.
\<close>

datatype response = Failure string | Response "block list"

record turn_env =
  file_changes :: "string option"
  plan_reminder :: "string option"
  model_call :: "message list \<Rightarrow> response"
  decisions :: "bool option list"
  completions :: "(nat \<times> result) list"

definition newline :: string where
  "newline = [CHR 0x0A]"

definition apostrophe :: string where
  "apostrophe = [CHR 0x27]"

fun join_with :: "string \<Rightarrow> string list \<Rightarrow> string" where
  "join_with sep [] = []"
| "join_with sep [r] = r"
| "join_with sep (r # q # rs) = r @ sep @ join_with sep (q # rs)"

text \<open>Lines 140 to 152.\<close>

definition build_reminders :: "turn_env \<Rightarrow> string list" where
  "build_reminders t =
     (case file_changes t of
        None \<Rightarrow> []
      | Some fc \<Rightarrow> if fc = [] then [] else [''Files changed since last turn:'' @ newline @ fc])
     @
     (case plan_reminder t of
        None \<Rightarrow> []
      | Some contextual_reminder \<Rightarrow>
          [contextual_reminder @ newline @ newline @ ''Use '' @ apostrophe @ ''update_step''
             @ apostrophe @ '' after each research/work session.''])"

text \<open>
  Lines 155 to 162. \<open>trim\<close> is \<^verbatim>\<open>token_cutter\<close> applied to the tokenizer and to
  \<^verbatim>\<open>max_tokens = 90000\<close>.
\<close>

definition trimmed_loop_msgs ::
  "(message list \<Rightarrow> message list) \<Rightarrow> turn_env \<Rightarrow> message list \<Rightarrow> message list" where
  "trimmed_loop_msgs trim t msgs =
     (let reminders = build_reminders t
      in if reminders \<noteq> []
         then trim (msgs @ [\<lparr>role = ''system'',
                 content = Str (''<system-reminder>'' @ newline @ join_with (newline @ newline) reminders
                                 @ newline @ ''</system-reminder>'')\<rparr>])
         else trim msgs)"

subsection \<open>The approval gate\<close>

definition decision :: "bool option list \<Rightarrow> nat \<Rightarrow> bool option" where
  "decision ds i = (if i < length ds then ds ! i else None)"

text \<open>
  The \<^verbatim>\<open>for\<close> loop of lines 200 to 221 from position \<open>i\<close> of the batch on. It returns
  its effects and whether it ran to its end; \<open>False\<close> is the \<^verbatim>\<open>return\<close> of line 221.
\<close>

fun approval_phase :: "message list \<Rightarrow> bool option list \<Rightarrow> nat \<Rightarrow> tool_use list \<Rightarrow> effect list \<times> bool" where
  "approval_phase msgs ds i [] = ([], True)"
| "approval_phase msgs ds i (tb # tbs) =
     (if tu_name tb \<in> DANGEROUS_TOOLS
      then (if decision ds i \<noteq> Some True
            then ([Emit (ToolCall (tu_name tb) (tu_input tb)),
                   Emit (ApprovalRequest (tu_name tb) (tu_input tb)),
                   Store msgs,
                   Emit Cancelled], False)
            else (case approval_phase msgs ds (Suc i) tbs of
                    (es, ok) \<Rightarrow>
                      (Emit (ToolCall (tu_name tb) (tu_input tb))
                         # Emit (ApprovalRequest (tu_name tb) (tu_input tb)) # es, ok)))
      else (case approval_phase msgs ds (Suc i) tbs of
              (es, ok) \<Rightarrow> (Emit (ToolCall (tu_name tb) (tu_input tb)) # es, ok)))"

subsection \<open>Dispatch and folding\<close>

text \<open>
  \<^verbatim>\<open>asyncio.gather\<close> returns the results by the position of their task, whatever the
  order of completion; it returns once every task has completed (\<open>None\<close>: some task
  never completes, the loop waits for ever).
\<close>

definition gather :: "nat \<Rightarrow> (nat \<times> result) list \<Rightarrow> result list option" where
  "gather n cs = those (map (map_of cs) [0..<n])"

text \<open>The body of the \<^verbatim>\<open>for ... in zip(local_tool_blocks, tool_results)\<close> loop, lines 256 to 282.\<close>

definition discovery :: "tool_use \<Rightarrow> result \<Rightarrow> effect list" where
  "discovery tb r =
     (case r of
        RDict repr dts dms \<Rightarrow> if tu_name tb = ''search_tools'' then [Discover dts dms] else []
      | other \<Rightarrow> [])"

fun fold_results :: "tool_use list \<Rightarrow> result list \<Rightarrow> effect list \<times> block list" where
  "fold_results (tb # tbs) (r # rs) =
     (case fold_results tbs rs of
        (es, tool_result_blocks) \<Rightarrow>
          (discovery tb r @ Emit (ToolResultEv (tu_name tb) (take 500 (py_str r))) # es,
           ToolResult (tu_id tb) (result_content r) # tool_result_blocks))"
| "fold_results tbs rs = ([], [])"

text \<open>Lines 234 to 253: the assistant message of the local batch.\<close>

definition assistant_blocks :: "(string \<times> string) option \<Rightarrow> tool_use list \<Rightarrow> block list" where
  "assistant_blocks thinking_block local_tool_blocks =
     (case thinking_block of None \<Rightarrow> [] | Some (t, sg) \<Rightarrow> [Thinking t sg])
     @ map (\<lambda>tb. ToolUse (tu_id tb) (tu_name tb) (tu_input tb)) local_tool_blocks"

subsection \<open>One iteration\<close>

text \<open>
  How an iteration ends: the loop goes round again, it leaves by \<^verbatim>\<open>break\<close> (the
  finalizer after the loop runs), it leaves by \<^verbatim>\<open>return\<close> (the generator ends at
  once), or it waits for ever on a tool. Each carries the effects of the iteration and
  the history \<^verbatim>\<open>msgs\<close> after it.
\<close>

datatype step =
    Continue "effect list" "message list"
  | Break "effect list" "message list"
  | Return "effect list" "message list"
  | Waiting "effect list"

text \<open>
  Lines 183 to 194: the thinking of the response is yielded, and its text when tool
  requests come with it.
\<close>

definition preamble :: "block list \<Rightarrow> effect list" where
  "preamble blocks =
     (case first_thinking blocks of None \<Rightarrow> [] | Some (t, sg) \<Rightarrow> [Emit (ThinkingEv t)]) @
     (case first_text blocks of
        None \<Rightarrow> []
      | Some txt \<Rightarrow> if tool_uses blocks \<noteq> [] then [Emit (TextEv txt)] else [])"

text \<open>
  Lines 223 to 284: every request of the local batch is handed to
  \<^verbatim>\<open>execute_tool_call\<close>, the results are gathered, and, when the batch is not empty, the
  assistant message and the message of the results are appended to the history.
  \<open>before\<close> are the effects of the iteration so far.
\<close>

definition dispatch ::
  "block list \<Rightarrow> tool_use list \<Rightarrow> effect list \<Rightarrow> (nat \<times> result) list \<Rightarrow> message list \<Rightarrow> step" where
  "dispatch blocks local_tool_blocks before cs msgs =
     (case gather (length local_tool_blocks) cs of
        None \<Rightarrow> Waiting (before @ map Exec local_tool_blocks)
      | Some tool_results \<Rightarrow>
          if local_tool_blocks \<noteq> []
          then Continue
                 (before @ map Exec local_tool_blocks
                    @ fst (fold_results local_tool_blocks tool_results))
                 (msgs
                  @ [\<lparr>role = ''assistant'',
                       content = Blocks (assistant_blocks (first_thinking blocks) local_tool_blocks)\<rparr>,
                     \<lparr>role = ''user'',
                       content = Blocks (snd (fold_results local_tool_blocks tool_results))\<rparr>])
          else Continue before msgs)"

text \<open>
  Lines 196 to 231: the requests whose tool is known locally pass the approval gate in
  their order; a refusal ends the generator, otherwise the batch is dispatched.
\<close>

definition tool_batch :: "string list \<Rightarrow> turn_env \<Rightarrow> message list \<Rightarrow> block list \<Rightarrow> step" where
  "tool_batch tools t msgs blocks =
     (let local_tool_blocks = filter (\<lambda>tb. tu_name tb \<in> set tools) (tool_uses blocks);
          gate = approval_phase msgs (decisions t) 0 local_tool_blocks
      in if snd gate
         then dispatch blocks local_tool_blocks (preamble blocks @ fst gate) (completions t) msgs
         else Return (preamble blocks @ fst gate) msgs)"

text \<open>
  The body of \<^verbatim>\<open>while True\<close>. An exception of the model call or of the handling of its
  response is caught by line 297 and ends the loop with an error event; a response
  without tool requests and with a text is the final answer; a response with neither
  lets the loop go round. The watcher, the state manager and the trimming, which are
  called before the \<^verbatim>\<open>try\<close>, are taken to return, and \<^verbatim>\<open>store_msgs\<close> to succeed.
\<close>

definition turn :: "(message list \<Rightarrow> message list) \<Rightarrow> string list \<Rightarrow> turn_env \<Rightarrow> message list \<Rightarrow> step" where
  "turn trim tools t msgs =
     (case model_call t (trimmed_loop_msgs trim t msgs) of
        Failure e \<Rightarrow> Break [Emit (ErrorEv (''Error: '' @ e))] msgs
      | Response blocks \<Rightarrow>
          if tool_uses blocks \<noteq> [] then tool_batch tools t msgs blocks
          else (case first_text blocks of
                  Some txt \<Rightarrow>
                    Break (preamble blocks
                             @ [Store (msgs @ [\<lparr>role = ''assistant'', content = Str txt\<rparr>]),
                                Emit (FinalText txt)])
                          (msgs @ [\<lparr>role = ''assistant'', content = Str txt\<rparr>])
                | None \<Rightarrow> Continue (preamble blocks) msgs))"

subsection \<open>The loop and the generator\<close>

text \<open>
  The \<^verbatim>\<open>while True\<close> loop over the environments of its iterations, and the finalizer
  of lines 304 to 307. The loop has no bound of its own: it ends when the model
  answers without a tool request, when a call fails or when an approval is refused.
  \<open>None\<close> says that the loop is still running when the listed iterations are over, or
  that it waits for a tool for ever.
\<close>

fun agent_loop ::
  "(message list \<Rightarrow> message list) \<Rightarrow> string list \<Rightarrow> turn_env list \<Rightarrow> message list
     \<Rightarrow> (effect list \<times> message list) option" where
  "agent_loop trim tools [] msgs = None"
| "agent_loop trim tools (t # script) msgs =
     (case turn trim tools t msgs of
        Continue es msgs1 \<Rightarrow>
          (case agent_loop trim tools script msgs1 of
             None \<Rightarrow> None
           | Some (es1, msgs2) \<Rightarrow> Some (es @ es1, msgs2))
      | Break es msgs1 \<Rightarrow> Some (es @ [Store msgs1, Emit Done], msgs1)
      | Return es msgs1 \<Rightarrow> Some (es, msgs1)
      | Waiting es \<Rightarrow> None)"

text \<open>Lines 129 to 136: the user message is the query between line breaks and indentation.\<close>

definition user_message :: "string \<Rightarrow> message" where
  "user_message query =
     \<lparr>role = ''user'', content = Str (newline @ query @ newline @ newline @ replicate 12 CHR '' '')\<rparr>"

text \<open>
  \<^verbatim>\<open>claude_loop\<close>: the history is loaded from the disk; an empty one starts with the
  system prompt (its text is built from the project directory, the date, the skills
  and the project instructions, and is the parameter \<open>system_prompt\<close>); the query is
  appended; the loop runs. The result is the trace of effects and the final history.
\<close>

definition claude_loop ::
  "(string \<Rightarrow> string) \<Rightarrow> (message list \<Rightarrow> message list) \<Rightarrow> string list \<Rightarrow> string \<Rightarrow> disk
     \<Rightarrow> string \<Rightarrow> string \<Rightarrow> turn_env list \<Rightarrow> (effect list \<times> message list) option" where
  "claude_loop storage_dir trim discovered_tools system_prompt d query project_dir script =
     (let loaded = load_msgs storage_dir project_dir d;
          msgs0 = (if loaded = [] then [\<lparr>role = ''system'', content = Str system_prompt\<rparr>] else loaded);
          msgs1 = msgs0 @ [user_message query]
      in case agent_loop trim (tool_names discovered_tools) script msgs1 of
           None \<Rightarrow> None
         | Some (es, msgs2) \<Rightarrow> Some (Emit (Status ''starting...'') # es, msgs2))"

text \<open>The disk after a trace: every \<open>Store\<close> rewrites the project's file.\<close>

fun disk_after :: "(string \<Rightarrow> string) \<Rightarrow> string \<Rightarrow> string \<Rightarrow> effect list \<Rightarrow> disk \<Rightarrow> disk" where
  "disk_after storage_dir now project_dir [] d = d"
| "disk_after storage_dir now project_dir (Store msgs # es) d =
     disk_after storage_dir now project_dir es (store_msgs storage_dir now project_dir msgs d)"
| "disk_after storage_dir now project_dir (e # es) d = disk_after storage_dir now project_dir es d"

text \<open>The events of a trace, and the requests it executed.\<close>

fun events_of :: "effect list \<Rightarrow> event list" where
  "events_of [] = []"
| "events_of (Emit ev # es) = ev # events_of es"
| "events_of (e # es) = events_of es"

fun executed :: "effect list \<Rightarrow> tool_use list" where
  "executed [] = []"
| "executed (Exec tb # es) = tb # executed es"
| "executed (e # es) = executed es"

fun is_tool_result_event :: "event \<Rightarrow> bool" where
  "is_tool_result_event (ToolResultEv n out) = True"
| "is_tool_result_event ev = False"

definition step_effects :: "step \<Rightarrow> effect list" where
  "step_effects st =
     (case st of Continue es m \<Rightarrow> es | Break es m \<Rightarrow> es | Return es m \<Rightarrow> es | Waiting es \<Rightarrow> es)"

text \<open>
  The history a run accumulates, told iteration by iteration: from the history \<open>h\<close>,
  the iterations of the script leave the loop with the history \<open>h'\<close> when one of them
  ends by \<^verbatim>\<open>break\<close> or \<^verbatim>\<open>return\<close> with \<open>h'\<close> and every iteration before it went round,
  each starting from the history the one before it left.
\<close>

inductive leaves_with ::
  "(message list \<Rightarrow> message list) \<Rightarrow> string list \<Rightarrow> turn_env list \<Rightarrow> message list \<Rightarrow> message list
     \<Rightarrow> bool" where
  by_break: "turn trim tools t h = Break es h' \<Longrightarrow> leaves_with trim tools (t # script) h h'"
| by_return: "turn trim tools t h = Return es h' \<Longrightarrow> leaves_with trim tools (t # script) h h'"
| went_round: "turn trim tools t h = Continue es h1 \<Longrightarrow> leaves_with trim tools script h1 h' \<Longrightarrow>
     leaves_with trim tools (t # script) h h'"

section \<open>The context budgeter (utils/tokenization.py)\<close>

text \<open>
  Modelled from the spec: the function \<^verbatim>\<open>token_cutter\<close> of \<^verbatim>\<open>utils/tokenization.py\<close>,
  which the loop imports and calls and which is not among the source files. Section
  4.4 of the specification gives its contract and algorithm: drop the oldest
  non-system messages first, always preserving system messages, until the encoded
  token count fits the budget; if dropping a message would orphan a capability-result,
  drop its paired message too. The tokenizer is the parameter \<open>tok\<close>, the encoded
  token count of one message; the count of a sequence is the sum.
\<close>

definition is_system :: "message \<Rightarrow> bool" where
  "is_system m \<longleftrightarrow> role m = ''system''"

definition token_count :: "(message \<Rightarrow> nat) \<Rightarrow> message list \<Rightarrow> nat" where
  "token_count tok msgs = sum_list (map tok msgs)"

definition message_blocks :: "message \<Rightarrow> block list" where
  "message_blocks m = (case content m of Str str \<Rightarrow> [] | Blocks bs \<Rightarrow> bs)"

fun result_ids :: "block list \<Rightarrow> string list" where
  "result_ids [] = []"
| "result_ids (ToolResult i c # bs) = i # result_ids bs"
| "result_ids (b # bs) = result_ids bs"

definition request_ids :: "message \<Rightarrow> string list" where
  "request_ids m = map tu_id (tool_uses (message_blocks m))"

definition has_tool_use :: "message \<Rightarrow> bool" where
  "has_tool_use m \<longleftrightarrow> tool_uses (message_blocks m) \<noteq> []"

definition has_tool_result :: "message \<Rightarrow> bool" where
  "has_tool_result m \<longleftrightarrow> result_ids (message_blocks m) \<noteq> []"

text \<open>
  Modelled from the spec: one step of the algorithm. The system messages in front of
  the oldest non-system message stay; that message is dropped, and when it carries
  capability requests, the message of their results, which is the next one and not a
  system message, is dropped with it. \<open>None\<close>: there is no non-system message left to drop.
\<close>

fun drop_oldest :: "message list \<Rightarrow> message list option" where
  "drop_oldest [] = None"
| "drop_oldest (m # ms) =
     (if is_system m then map_option (Cons m) (drop_oldest ms)
      else (case ms of
              [] \<Rightarrow> Some []
            | r # rest \<Rightarrow>
                if has_tool_use m \<and> \<not> is_system r \<and> has_tool_result r then Some rest else Some ms))"

text \<open>Modelled from the spec: drop the oldest unit until the count fits.\<close>

function token_cutter :: "(message \<Rightarrow> nat) \<Rightarrow> nat \<Rightarrow> message list \<Rightarrow> message list" where
  "token_cutter tok budget msgs =
     (if token_count tok msgs \<le> budget then msgs
      else (case drop_oldest msgs of
              None \<Rightarrow> msgs
            | Some shorter \<Rightarrow> token_cutter tok budget shorter))"
  by pat_completeness auto
termination
proof (relation "measure (\<lambda>(tok, budget, msgs). length msgs)")
  show "wf (measure (\<lambda>(tok, budget, msgs). length msgs))" by simp
next
  fix tok :: "message \<Rightarrow> nat" and budget :: nat and msgs shorter :: "message list"
  assume "drop_oldest msgs = Some shorter"
  then have "length shorter < length msgs"
    by (induction msgs arbitrary: shorter) (auto split: if_splits list.splits)
  then show "((tok, budget, shorter), (tok, budget, msgs))
               \<in> measure (\<lambda>(tok, budget, msgs). length msgs)"
    by simp
qed

text \<open>
  The pairing invariant of the data model: a message with capability requests is
  followed at once by the message of exactly their results, a message with results
  follows such a message, and system messages carry neither.
\<close>

fun well_paired :: "message list \<Rightarrow> bool" where
  "well_paired [] = True"
| "well_paired [m] = (\<not> has_tool_use m \<and> \<not> has_tool_result m)"
| "well_paired (m # r # ms) =
     (if has_tool_use m
      then \<not> is_system m \<and> \<not> is_system r \<and> \<not> has_tool_result m \<and> \<not> has_tool_use r \<and>
           result_ids (message_blocks r) = request_ids m \<and> well_paired ms
      else \<not> has_tool_result m \<and> well_paired (r # ms))"

text \<open>
  A history with a system prompt and a request/result pair between two plain
  messages, and a tokenizer that counts ten tokens for every message.
\<close>

definition example_paired :: "message list" where
  "example_paired =
     [\<lparr>role = ''system'', content = Str ''You are micro claude code''\<rparr>,
      \<lparr>role = ''user'', content = Str ''what is here?''\<rparr>,
      \<lparr>role = ''assistant'', content = Blocks [ToolUse ''t1'' ''glob_'' (JObj [(''pattern'', JStr ''*'')])]\<rparr>,
      \<lparr>role = ''user'', content = Blocks [ToolResult ''t1'' ''a.txt'']\<rparr>,
      \<lparr>role = ''assistant'', content = Str ''One file: a.txt''\<rparr>]"

definition ten_each :: "message \<Rightarrow> nat" where
  "ten_each m = 10"

subsection \<open>A concrete conversation\<close>

text \<open>
  One model response with a thinking block, a narration and two requests: a benign
  \<^verbatim>\<open>read_\<close> and a privileged \<^verbatim>\<open>bash_\<close>. In \<open>example_denied\<close> the consumer answers the
  approval request with no; in \<open>example_approved\<close> it answers yes, and \<^verbatim>\<open>bash_\<close> completes
  before \<^verbatim>\<open>read_\<close>, whose output has 501 characters. \<open>example_answer\<close> is a final answer.
  \<open>keep_all\<close> is the trimming of a history that fits its budget.
\<close>

definition keep_all :: "message list \<Rightarrow> message list" where
  "keep_all msgs = msgs"

definition example_dir :: "string \<Rightarrow> string" where
  "example_dir project_dir = ''/home/user/.micro-cc/projects/'' @ project_dir"

definition long_output :: string where
  "long_output = replicate 501 CHR ''a''"

definition example_batch :: "block list" where
  "example_batch =
     [Thinking ''look first'' ''sig'', Text ''Reading, then listing.'',
      ToolUse ''t1'' ''read_'' (JObj [(''file_path'', JStr ''a.txt'')]),
      ToolUse ''t2'' ''bash_'' (JObj [(''command'', JStr ''ls'')])]"

definition example_denied :: turn_env where
  "example_denied =
     \<lparr>file_changes = None, plan_reminder = None,
      model_call = (\<lambda>input. Response example_batch),
      decisions = [None, Some False],
      completions = [(0, RStr long_output), (1, RStr ''a.txt'')]\<rparr>"

definition example_approved :: turn_env where
  "example_approved =
     \<lparr>file_changes = Some ''<file-changes>'', plan_reminder = None,
      model_call = (\<lambda>input. Response example_batch),
      decisions = [None, Some True],
      completions = [(1, RStr ''a.txt''), (0, RStr long_output)]\<rparr>"

definition example_answer :: turn_env where
  "example_answer =
     \<lparr>file_changes = None, plan_reminder = None,
      model_call = (\<lambda>input. Response [Text ''One file: a.txt'']),
      decisions = [],
      completions = []\<rparr>"

definition example_history :: "message list" where
  "example_history = [\<lparr>role = ''system'', content = Str ''You are micro claude code''\<rparr>,
                      user_message ''what is here?'']"

text \<open>
  A second query on the project whose transcript holds \<open>example_history\<close>: the batch is
  approved, then the model answers. \<open>example_final_history\<close> is the history the run
  ends with.
\<close>

definition example_disk :: disk where
  "example_disk = store_msgs example_dir ''2025-12-31T23:59:59'' ''proj'' example_history Map.empty"

definition example_final_history :: "message list" where
  "example_final_history =
     example_history @
     [user_message ''and in detail?'',
      \<lparr>role = ''assistant'',
        content = Blocks [Thinking ''look first'' ''sig'',
                          ToolUse ''t1'' ''read_'' (JObj [(''file_path'', JStr ''a.txt'')]),
                          ToolUse ''t2'' ''bash_'' (JObj [(''command'', JStr ''ls'')])]\<rparr>,
      \<lparr>role = ''user'',
        content = Blocks [ToolResult ''t1'' long_output, ToolResult ''t2'' ''a.txt'']\<rparr>,
      \<lparr>role = ''assistant'', content = Str ''One file: a.txt''\<rparr>]"

section \<open>Properties of the plan tracker\<close>

lemma get_plan_cases:
  "get_plan now pr s = (r, s1) \<Longrightarrow>
     (r = None \<and> (\<forall>k e. s1 k = Some e \<longrightarrow> s k = Some e)) \<or>
     (\<exists>e. r = Some (stored e) \<and> s1 = s \<and> s (make_key ''plan'' [pr]) = Some e \<and> \<not> now > expiry e)"
  by (auto simp: get_plan_def get_entry_def split: option.splits if_splits)

lemma store_ok_get_plan:
  "store_ok s \<Longrightarrow> get_plan now pr s = (r, s1) \<Longrightarrow> store_ok s1"
  by (drule get_plan_cases) (auto simp: store_ok_def ran_def)

lemma store_ok_plan:
  "store_ok s \<Longrightarrow> get_plan now pr s = (Some p, s1) \<Longrightarrow> plan_ok p \<and> 0 \<le> current_step_index p"
  by (drule get_plan_cases) (auto simp: store_ok_def ran_def)

lemma get_plan_Some_same:
  "get_plan now pr s = (Some p, s1) \<Longrightarrow> s1 = s"
  by (drule get_plan_cases) auto

lemma store_ok_set_plan:
  "store_ok s \<Longrightarrow> plan_ok p \<Longrightarrow> 0 \<le> current_step_index p \<Longrightarrow> store_ok (set_plan now pr p s)"
  by (auto simp: store_ok_def set_plan_def set_with_ttl_def ran_def split: if_splits)

lemma plan_of_set_plan:
  "plan_of now pr (set_plan now pr p s) = Some p"
  by (simp add: plan_of_def get_plan_def get_entry_def set_plan_def set_with_ttl_def)

lemma setitem_Some: "setitem xs i v = Some ys \<longleftrightarrow> nat i < length xs \<and> ys = xs[nat i := v]"
  by (auto simp: setitem_def)

lemma apply_status_ok:
  "apply_status i st p = Inr p1 \<Longrightarrow> plan_ok p \<Longrightarrow> 0 \<le> current_step_index p \<Longrightarrow> 0 \<le> i \<Longrightarrow>
     plan_ok p1 \<and> 0 \<le> current_step_index p1"
  by (auto simp: apply_status_def plan_ok_def Let_def setitem_Some split: option.splits if_splits)

lemma apply_findings_ok:
  "apply_findings i f p = Inr p1 \<Longrightarrow> plan_ok p \<Longrightarrow> 0 \<le> current_step_index p \<Longrightarrow>
     plan_ok p1 \<and> 0 \<le> current_step_index p1"
  by (auto simp: apply_findings_def plan_ok_def setitem_Some split: option.splits if_splits)

lemma resolve_index_err: "resolve_index pyi idx p = Inl m \<Longrightarrow> \<not> reports_success m"
  by (auto simp: resolve_index_def split: index_arg.splits option.splits)

lemma apply_status_err: "apply_status i st p = Inl m \<Longrightarrow> \<not> reports_success m"
  by (auto simp: apply_status_def Let_def split: option.splits if_splits)

lemma apply_findings_err: "apply_findings i f p = Inl m \<Longrightarrow> \<not> reports_success m"
  by (auto simp: apply_findings_def split: option.splits if_splits)

lemma make_plan_cases:
  "make_plan jl now c pr s = (m, s') \<Longrightarrow>
     (\<not> reports_success m \<and> s' = s) \<or>
     (\<exists>t cx x xs. reports_success m \<and>
          s' = set_plan now pr
                \<lparr>title = t, ctx = cx, steps = x # xs,
                 step_statuses = replicate (length (x # xs)) ''not_started'',
                 step_findings = replicate (length (x # xs)) [],
                 current_step_index = 0, created_at = now\<rparr>
                (snd (get_plan now pr s)))"
  unfolding make_plan_def Let_def
  by (simp split: if_splits option.splits bool.splits json.splits list.splits prod.splits) fastforce+

lemma update_step_cases:
  "update_step pyi now idx st f pr s = (m, s') \<Longrightarrow>
     (\<not> reports_success m \<and> s' = snd (get_plan now pr s)) \<or>
     (\<exists>p i p1 p2. get_plan now pr s = (Some p, s) \<and> resolve_index pyi idx p = Inr i \<and>
          0 \<le> i \<and> i < int (length (steps p)) \<and> apply_status i st p = Inr p1 \<and>
          apply_findings i f p1 = Inr p2 \<and> m = StepUpdated i \<and> s' = set_plan now pr p2 s)"
proof (cases "get_plan now pr s")
  case (Pair r s1)
  assume a: "update_step pyi now idx st f pr s = (m, s')"
  show ?thesis
  proof (cases r)
    case None
    with Pair a show ?thesis by (auto simp: update_step_def)
  next
    case (Some p)
    with Pair have g: "get_plan now pr s = (Some p, s1)" by simp
    then have "s1 = s" by (rule get_plan_Some_same)
    with g a show ?thesis
      by (auto simp: update_step_def split: sum.splits if_splits
          dest: resolve_index_err apply_status_err apply_findings_err)
  qed
qed

lemma add_step_cases:
  "add_step now d pr s = (m, s') \<Longrightarrow>
     (\<not> reports_success m \<and> s' = snd (get_plan now pr s)) \<or>
     (\<exists>p. get_plan now pr s = (Some p, s) \<and> reports_success m \<and>
          s' = set_plan now pr (p\<lparr>steps := steps p @ [JStr d],
                      step_statuses := step_statuses p @ [''not_started''],
                      step_findings := step_findings p @ [[]]\<rparr>) s)"
proof (cases "get_plan now pr s")
  case (Pair r s1)
  assume a: "add_step now d pr s = (m, s')"
  show ?thesis
  proof (cases r)
    case None
    with Pair a show ?thesis by (auto simp: add_step_def)
  next
    case (Some p)
    with Pair have g: "get_plan now pr s = (Some p, s1)" by simp
    then have "s1 = s" by (rule get_plan_Some_same)
    with g a show ?thesis
      by (auto simp: add_step_def Let_def)
  qed
qed

lemma store_ok_snd_get_plan: "store_ok s \<Longrightarrow> store_ok (snd (get_plan now pr s))"
  by (cases "get_plan now pr s") (auto dest: store_ok_get_plan)

lemma plan_tool_ok:
  assumes "store_ok s" and "plan_tool jl pyi now call pr s = (m, s')"
  shows "store_ok s' \<and> (reports_success m \<longrightarrow> (\<exists>p. plan_of now pr s' = Some p \<and> plan_ok p))"
proof (cases call)
  case (MakePlan c)
  with assms(2) have "make_plan jl now c pr s = (m, s')" by simp
  from make_plan_cases[OF this] assms(1) show ?thesis
    by (auto simp: plan_of_set_plan plan_ok_def intro!: store_ok_set_plan store_ok_snd_get_plan)
next
  case (UpdateStep idx st f)
  with assms(2) have "update_step pyi now idx st f pr s = (m, s')" by simp
  from update_step_cases[OF this] show ?thesis
  proof
    assume "\<not> reports_success m \<and> s' = snd (get_plan now pr s)"
    with assms(1) show ?thesis by (auto intro: store_ok_snd_get_plan)
  next
    assume "\<exists>p i p1 p2. get_plan now pr s = (Some p, s) \<and> resolve_index pyi idx p = Inr i \<and>
          0 \<le> i \<and> i < int (length (steps p)) \<and> apply_status i st p = Inr p1 \<and>
          apply_findings i f p1 = Inr p2 \<and> m = StepUpdated i \<and> s' = set_plan now pr p2 s"
    then obtain p i p1 p2 where h: "get_plan now pr s = (Some p, s)" "0 \<le> i"
      "apply_status i st p = Inr p1" "apply_findings i f p1 = Inr p2" "s' = set_plan now pr p2 s"
      by blast
    from store_ok_plan[OF assms(1) h(1)] have "plan_ok p \<and> 0 \<le> current_step_index p" .
    with apply_status_ok[OF h(3)] h(2) have "plan_ok p1 \<and> 0 \<le> current_step_index p1" by blast
    with apply_findings_ok[OF h(4)] have "plan_ok p2 \<and> 0 \<le> current_step_index p2" by blast
    with h(5) assms(1) show ?thesis
      by (auto simp: plan_of_set_plan intro!: store_ok_set_plan)
  qed
next
  case (AddStep d)
  with assms(2) have "add_step now d pr s = (m, s')" by simp
  from add_step_cases[OF this] show ?thesis
  proof
    assume "\<not> reports_success m \<and> s' = snd (get_plan now pr s)"
    with assms(1) show ?thesis by (auto intro: store_ok_snd_get_plan)
  next
    assume "\<exists>p. get_plan now pr s = (Some p, s) \<and> reports_success m \<and>
          s' = set_plan now pr (p\<lparr>steps := steps p @ [JStr d],
                      step_statuses := step_statuses p @ [''not_started''],
                      step_findings := step_findings p @ [[]]\<rparr>) s"
    then obtain p where h: "get_plan now pr s = (Some p, s)"
      "s' = set_plan now pr (p\<lparr>steps := steps p @ [JStr d],
                      step_statuses := step_statuses p @ [''not_started''],
                      step_findings := step_findings p @ [[]]\<rparr>) s" by blast
    from store_ok_plan[OF assms(1) h(1)] have "plan_ok p \<and> 0 \<le> current_step_index p" .
    with h(2) assms(1) show ?thesis
      by (auto simp: plan_of_set_plan plan_ok_def intro!: store_ok_set_plan)
  qed
qed

lemma store_ok_cleanup: "store_ok s \<Longrightarrow> store_ok (cleanup_expired now s)"
  by (auto simp: store_ok_def cleanup_expired_def ran_def split: option.splits if_splits)

lemma reachable_store_ok: "reachable s \<Longrightarrow> store_ok s"
proof (induction rule: reachable.induct)
  case start
  show ?case by (simp add: store_ok_def)
next
  case (called s jl pyi now call pr)
  then show ?case using plan_tool_ok[of s jl pyi now call pr] by (metis prod.collapse)
next
  case (reaped s now)
  from reaped.IH show ?case by (rule store_ok_cleanup)
qed

lemma example_store_eq:
  "example_store = [''micro_cc:plan:proj'' \<mapsto>
     \<lparr>stored = \<lparr>title = JStr ''T'', ctx = JStr [], steps = [JStr ''A'', JStr ''B''],
        step_statuses = [''not_started'', ''not_started''], step_findings = [[], []],
        current_step_index = 0, created_at = 0\<rparr>, expiry = 3600\<rparr>]"
  by (simp add: example_store_def make_plan_def example_loads_def example_content_def quoted_def
      get_plan_def get_entry_def set_plan_def set_with_ttl_def make_key_def app_name_def)

lemma example_store_found_eq:
  "example_store_found = [''micro_cc:plan:proj'' \<mapsto>
     \<lparr>stored = \<lparr>title = JStr ''T'', ctx = JStr [], steps = [JStr ''A'', JStr ''B''],
        step_statuses = [''not_started'', ''not_started''], step_findings = [''old'', []],
        current_step_index = 0, created_at = 0\<rparr>, expiry = 3600\<rparr>]"
  by (simp add: example_store_found_def example_store_eq update_step_def resolve_index_def
      apply_status_def apply_findings_def setitem_def
      get_plan_def get_entry_def set_plan_def set_with_ttl_def make_key_def app_name_def)

lemma reachable_example_store: "reachable example_store"
  unfolding example_store_def
  using reachable.called[OF reachable.start, of example_loads example_int 0 "MakePlan example_content" "''proj''"]
  by simp

lemma reachable_example_store_found: "reachable example_store_found"
  unfolding example_store_found_def
  using reachable.called[OF reachable_example_store, of example_loads example_int 0 "UpdateStep (IntArg 0) None (Some ''old'')" "''proj''"]
  by simp

text \<open>
  Claim C5. In every store the program can reach, whenever \<^verbatim>\<open>make_plan\<close>,
  \<^verbatim>\<open>update_step\<close> or \<^verbatim>\<open>add_step\<close> reports success, the project has a plan
  afterwards and its lists \<open>steps\<close>, \<open>step_statuses\<close> and \<open>step_findings\<close> have the
  same length.
\<close>

theorem plan_lists_aligned:
  assumes "reachable s"
    and "plan_tool json_loads py_int now call project_path s = (m, s')"
    and "reports_success m"
  shows "\<exists>p. plan_of now project_path s' = Some p \<and>
             length (steps p) = length (step_statuses p) \<and>
             length (step_statuses p) = length (step_findings p)"
  using plan_tool_ok[OF reachable_store_ok[OF assms(1)] assms(2)] assms(3)
  by (simp add: plan_ok_def)

text \<open>
  The theorem at the example store: adding a step C to the plan with steps A and B.
\<close>

theorem plan_lists_aligned_witness:
  "reachable example_store \<and>
   reports_success (fst (plan_tool example_loads example_int 5 (AddStep ''C'') ''proj'' example_store)) \<and>
   (\<exists>p. plan_of 5 ''proj'' (snd (plan_tool example_loads example_int 5 (AddStep ''C'') ''proj'' example_store)) = Some p \<and>
             length (steps p) = length (step_statuses p) \<and>
             length (step_statuses p) = length (step_findings p))"
proof -
  have r: "reachable example_store" by (rule reachable_example_store)
  have ok: "reports_success (fst (plan_tool example_loads example_int 5 (AddStep ''C'') ''proj'' example_store))"
    by (simp add: example_store_eq add_step_def Let_def
      get_plan_def get_entry_def set_plan_def set_with_ttl_def make_key_def app_name_def)
  from plan_lists_aligned[OF r surjective_pairing ok] r ok show ?thesis by simp
qed

lemma plan_of_Some: "plan_of now pr s = Some p \<Longrightarrow> get_plan now pr s = (Some p, s)"
  unfolding plan_of_def
  by (cases "get_plan now pr s") (auto dest: get_plan_Some_same)

lemma update_step_unfold:
  assumes "get_plan now pr s = (Some p, s)"
  shows "update_step pyi now idx st f pr s =
     (case resolve_index pyi idx p of
            Inl err \<Rightarrow> (err, s)
          | Inr i \<Rightarrow>
              if i < 0 \<or> i \<ge> int (length (steps p)) then (ErrInvalidStepIndex i, s)
              else (case apply_status i st p of
                      Inl err \<Rightarrow> (err, s)
                    | Inr p1 \<Rightarrow>
                       (case apply_findings i f p1 of
                          Inl err \<Rightarrow> (err, s)
                        | Inr p2 \<Rightarrow> (StepUpdated i, set_plan now pr p2 s))))"
  using assms by (simp add: update_step_def)

lemma apply_findings_keeps:
  "apply_findings i f p1 = Inr p2 \<Longrightarrow>
     step_statuses p2 = step_statuses p1 \<and> current_step_index p2 = current_step_index p1 \<and>
     steps p2 = steps p1"
  by (auto simp: apply_findings_def split: option.splits if_splits)

lemma apply_findings_total:
  "plan_ok p \<Longrightarrow> 0 \<le> i \<Longrightarrow> i < int (length (steps p)) \<Longrightarrow> \<exists>p2. apply_findings i f p = Inr p2"
  by (auto simp: apply_findings_def plan_ok_def setitem_def split: option.splits)

lemma apply_status_statuses:
  "apply_status i st p = Inr p1 \<Longrightarrow> 0 \<le> i \<Longrightarrow>
     length (step_statuses p1) = length (step_statuses p) \<and> steps p1 = steps p \<and>
     step_findings p1 = step_findings p \<and>
     (\<forall>j < length (step_statuses p). int j \<noteq> i \<longrightarrow> step_statuses p1 ! j = step_statuses p ! j)"
  by (auto simp: apply_status_def Let_def setitem_Some split: option.splits if_splits)

lemma apply_status_completed_current:
  "plan_ok p \<Longrightarrow> 0 \<le> current_step_index p \<Longrightarrow> current_step_index p < int (length (steps p)) \<Longrightarrow>
     \<exists>p1. apply_status (current_step_index p) (Some ''completed'') p = Inr p1 \<and>
          current_step_index p1 = current_step_index p + 1"
  by (auto simp: apply_status_def Let_def setitem_def plan_ok_def valid_statuses_def)

lemma apply_status_total:
  "plan_ok p \<Longrightarrow> 0 \<le> i \<Longrightarrow> i < int (length (steps p)) \<Longrightarrow>
     st = None \<or> st = Some [] \<or> (\<exists>v. st = Some v \<and> v \<in> set valid_statuses) \<Longrightarrow>
     \<exists>p1. apply_status i st p = Inr p1"
  by (auto simp: apply_status_def Let_def setitem_def plan_ok_def)

lemma apply_status_other:
  "apply_status i st p = Inr p1 \<Longrightarrow> i \<noteq> current_step_index p \<Longrightarrow>
     current_step_index p1 = current_step_index p"
  by (auto simp: apply_status_def Let_def setitem_Some split: option.splits if_splits)

text \<open>
  Claim C6. For an existing plan \<open>p\<close> of a reachable store and any call of
  \<^verbatim>\<open>update_step\<close>: if the call addresses the current step (by its index, by a numeral
  string, or by omitting the index) with status \<open>completed\<close>, it succeeds and
  \<open>current_step_index\<close> grows by exactly one, which is \<open>len(steps)\<close> when that step was
  the last; if it addresses anything else with status \<open>completed\<close>, the index stays;
  and the status of every step the call does not address is what it was.
\<close>

theorem update_step_completed_advances:
  assumes "reachable s"
    and "plan_of now project_path s = Some p"
    and "update_step py_int now step_index status findings project_path s = (m, s')"
  shows "\<exists>p'. plan_of now project_path s' = Some p' \<and>
     (resolve_index py_int step_index p = Inr (current_step_index p) \<and>
      status = Some ''completed'' \<and> current_step_index p < int (length (steps p)) \<longrightarrow>
        m = StepUpdated (current_step_index p) \<and>
        current_step_index p' = current_step_index p + 1 \<and>
        (current_step_index p + 1 = int (length (steps p)) \<longrightarrow>
           current_step_index p' = int (length (steps p)))) \<and>
     (resolve_index py_int step_index p \<noteq> Inr (current_step_index p) \<and>
      status = Some ''completed'' \<longrightarrow>
        current_step_index p' = current_step_index p) \<and>
     length (step_statuses p') = length (step_statuses p) \<and>
     (\<forall>j < length (step_statuses p).
        resolve_index py_int step_index p \<noteq> Inr (int j) \<longrightarrow>
          step_statuses p' ! j = step_statuses p ! j)"
proof -
  from assms(2) have g: "get_plan now project_path s = (Some p, s)" by (rule plan_of_Some)
  from store_ok_plan[OF reachable_store_ok[OF assms(1)] g]
  have ok: "plan_ok p" and nonneg: "0 \<le> current_step_index p" by simp_all
  note u = assms(3)[unfolded update_step_unfold[OF g]]
  show ?thesis
  proof (cases "resolve_index py_int step_index p")
    case (Inl err)
    with u have "s' = s" by simp
    with assms(2) Inl show ?thesis by simp
  next
    case (Inr i)
    show ?thesis
    proof (cases "i < 0 \<or> i \<ge> int (length (steps p))")
      case True
      with u Inr have "s' = s" by auto
      with assms(2) Inr True nonneg ok show ?thesis by (auto simp: plan_ok_def)
    next
      case False
      then have range: "0 \<le> i" "i < int (length (steps p))" by simp_all
      show ?thesis
      proof (cases "apply_status i status p")
        case (Inl err)
        with u Inr False have "s' = s" by simp
        moreover from Inl Inr range ok nonneg
        have "\<not> (i = current_step_index p \<and> status = Some ''completed'')"
          using apply_status_completed_current[OF ok nonneg] by auto
        moreover from Inl have "status = Some ''completed'' \<Longrightarrow> False"
          using apply_status_total[OF ok range, of status] by (auto simp: valid_statuses_def)
        ultimately show ?thesis using assms(2) Inr by auto
      next
        case st: (Inr p1)
        from apply_status_ok[OF st ok nonneg range(1)] have ok1: "plan_ok p1" by simp
        from apply_status_statuses[OF st range(1)] have keep: "steps p1 = steps p" by simp
        from apply_findings_total[OF ok1 range(1), of findings] range(2) keep
        obtain p2 where f: "apply_findings i findings p1 = Inr p2" by auto
        from u Inr False st f have res: "m = StepUpdated i" "s' = set_plan now project_path p2 s"
          by simp_all
        then have p': "plan_of now project_path s' = Some p2" by (simp add: plan_of_set_plan)
        note k = apply_findings_keeps[OF f]
        note a = apply_status_statuses[OF st range(1)]
        have c1: "i = current_step_index p \<Longrightarrow> status = Some ''completed'' \<Longrightarrow>
               current_step_index p2 = current_step_index p + 1"
          using apply_status_completed_current[OF ok nonneg] st range k by auto
        have c2: "i \<noteq> current_step_index p \<Longrightarrow> current_step_index p2 = current_step_index p"
          using apply_status_other[OF st] k by simp
        show ?thesis using p' res(1) Inr c1 c2 k a by auto
      qed
    qed
  qed
qed

lemma plan_of_example_store:
  "plan_of 1 ''proj'' example_store =
     Some \<lparr>title = JStr ''T'', ctx = JStr [], steps = [JStr ''A'', JStr ''B''],
        step_statuses = [''not_started'', ''not_started''], step_findings = [[], []],
        current_step_index = 0, created_at = 0\<rparr>"
  by (simp add: example_store_eq plan_of_def get_plan_def get_entry_def make_key_def app_name_def)

text \<open>
  The scenario of the specification: with steps A and B, completing the current step 0
  moves the index to 1; completing step 1 instead leaves the index at 0.
\<close>

theorem update_step_completed_advances_witness:
  "(\<exists>p'. plan_of 1 ''proj''
           (snd (update_step example_int 1 Omitted (Some ''completed'') None ''proj'' example_store)) = Some p' \<and>
         fst (update_step example_int 1 Omitted (Some ''completed'') None ''proj'' example_store) = StepUpdated 0 \<and>
         current_step_index p' = 1 \<and> length (step_statuses p') = 2) \<and>
   (\<exists>p'. plan_of 1 ''proj''
           (snd (update_step example_int 1 (StrArg ''1'') (Some ''completed'') None ''proj'' example_store)) = Some p' \<and>
         current_step_index p' = 0 \<and> length (step_statuses p') = 2)"
proof -
  note r = reachable_example_store
  note p = plan_of_example_store
  have a: "\<exists>p'. plan_of 1 ''proj''
           (snd (update_step example_int 1 Omitted (Some ''completed'') None ''proj'' example_store)) = Some p' \<and>
         fst (update_step example_int 1 Omitted (Some ''completed'') None ''proj'' example_store) = StepUpdated 0 \<and>
         current_step_index p' = 1 \<and> length (step_statuses p') = 2"
    using update_step_completed_advances[OF r p surjective_pairing,
      of example_int Omitted "Some ''completed''" None]
    by (auto simp: resolve_index_def)
  have b: "\<exists>p'. plan_of 1 ''proj''
           (snd (update_step example_int 1 (StrArg ''1'') (Some ''completed'') None ''proj'' example_store)) = Some p' \<and>
         current_step_index p' = 0 \<and> length (step_statuses p') = 2"
    using update_step_completed_advances[OF r p surjective_pairing,
      of example_int "StrArg ''1''" "Some ''completed''" None]
    by (auto simp: resolve_index_def example_int_def)
  from a b show ?thesis by (rule conjI)
qed

lemma apply_findings_result:
  "apply_findings i f p = Inr p2 \<Longrightarrow> 0 \<le> i \<Longrightarrow>
     (case f of
        None \<Rightarrow> step_findings p2 = step_findings p
      | Some v \<Rightarrow> if v = [] then step_findings p2 = step_findings p
                  else nat i < length (step_findings p) \<and> step_findings p2 = (step_findings p)[nat i := v])"
  by (auto simp: apply_findings_def setitem_Some split: option.splits if_splits)

text \<open>
  Claim C8, amended. For an existing plan of a reachable store, a call of
  \<^verbatim>\<open>update_step\<close> that reports success addressed a valid step \<open>i\<close>, and a non-empty
  findings argument is then the whole new findings field of step \<open>i\<close>, whatever the
  field held; an empty findings string, like an omitted one, leaves every findings
  field as it was (the guard \<^verbatim>\<open>if findings:\<close>).
\<close>

theorem update_step_findings_replace:
  assumes "reachable s"
    and "plan_of now project_path s = Some p"
    and "update_step py_int now step_index status findings project_path s = (m, s')"
    and "reports_success m"
  shows "\<exists>p' i. plan_of now project_path s' = Some p' \<and> m = StepUpdated i \<and>
            resolve_index py_int step_index p = Inr i \<and> 0 \<le> i \<and> i < int (length (step_findings p)) \<and>
            (case findings of
               None \<Rightarrow> step_findings p' = step_findings p
             | Some v \<Rightarrow>
                 if v = [] then step_findings p' = step_findings p
                 else step_findings p' = (step_findings p)[nat i := v] \<and> step_findings p' ! nat i = v)"
proof -
  from assms(2) have g: "get_plan now project_path s = (Some p, s)" by (rule plan_of_Some)
  from store_ok_plan[OF reachable_store_ok[OF assms(1)] g]
  have ok: "plan_ok p" and nonneg: "0 \<le> current_step_index p" by simp_all
  from update_step_cases[OF assms(3)] assms(4) g
  obtain i p1 p2 where h: "resolve_index py_int step_index p = Inr i" "0 \<le> i"
      "i < int (length (steps p))" "apply_status i status p = Inr p1"
      "apply_findings i findings p1 = Inr p2" "m = StepUpdated i"
      "s' = set_plan now project_path p2 s"
    by auto
  from apply_status_statuses[OF h(4) h(2)] have same: "step_findings p1 = step_findings p" by simp
  from h(7) have p': "plan_of now project_path s' = Some p2" by (simp add: plan_of_set_plan)
  from ok h(3) have len: "i < int (length (step_findings p))" by (simp add: plan_ok_def)
  from apply_findings_result[OF h(5) h(2)] same
  have "case findings of
               None \<Rightarrow> step_findings p2 = step_findings p
             | Some v \<Rightarrow>
                 if v = [] then step_findings p2 = step_findings p
                 else step_findings p2 = (step_findings p)[nat i := v] \<and> step_findings p2 ! nat i = v"
    by (auto split: option.splits if_splits)
  with p' h(1,2,6) len show ?thesis by blast
qed

lemma plan_of_example_store_found:
  "plan_of 2 ''proj'' example_store_found =
     Some \<lparr>title = JStr ''T'', ctx = JStr [], steps = [JStr ''A'', JStr ''B''],
        step_statuses = [''not_started'', ''not_started''], step_findings = [''old'', []],
        current_step_index = 0, created_at = 0\<rparr>"
  by (simp add: example_store_found_eq plan_of_def get_plan_def get_entry_def make_key_def app_name_def)

lemma update_example_findings:
  "update_step example_int 2 (IntArg 0) None (Some ''new'') ''proj'' example_store_found =
     (StepUpdated 0, [''micro_cc:plan:proj'' \<mapsto>
     \<lparr>stored = \<lparr>title = JStr ''T'', ctx = JStr [], steps = [JStr ''A'', JStr ''B''],
        step_statuses = [''not_started'', ''not_started''], step_findings = [''new'', []],
        current_step_index = 0, created_at = 0\<rparr>, expiry = 3602\<rparr>])"
  by (simp add: example_store_found_eq update_step_def resolve_index_def
      apply_status_def apply_findings_def setitem_def
      get_plan_def get_entry_def set_plan_def set_with_ttl_def make_key_def app_name_def)

lemma update_example_empty_findings:
  "update_step example_int 2 (IntArg 0) None (Some []) ''proj'' example_store_found =
     (StepUpdated 0, [''micro_cc:plan:proj'' \<mapsto>
     \<lparr>stored = \<lparr>title = JStr ''T'', ctx = JStr [], steps = [JStr ''A'', JStr ''B''],
        step_statuses = [''not_started'', ''not_started''], step_findings = [''old'', []],
        current_step_index = 0, created_at = 0\<rparr>, expiry = 3602\<rparr>])"
  by (simp add: example_store_found_eq update_step_def resolve_index_def
      apply_status_def apply_findings_def setitem_def
      get_plan_def get_entry_def set_plan_def set_with_ttl_def make_key_def app_name_def)

text \<open>
  The theorem at the example store whose step 0 holds the findings \<open>old\<close>: the
  findings \<open>new\<close> replace them, the empty findings leave them.
\<close>

theorem update_step_findings_replace_witness:
  "reports_success (fst (update_step example_int 2 (IntArg 0) None (Some ''new'') ''proj'' example_store_found)) \<and>
   (\<exists>p'. plan_of 2 ''proj''
        (snd (update_step example_int 2 (IntArg 0) None (Some ''new'') ''proj'' example_store_found)) = Some p' \<and>
       step_findings p' = [''new'', []]) \<and>
   (\<exists>p'. plan_of 2 ''proj''
        (snd (update_step example_int 2 (IntArg 0) None (Some []) ''proj'' example_store_found)) = Some p' \<and>
       step_findings p' = [''old'', []])"
proof -
  note r = reachable_example_store_found
  note p = plan_of_example_store_found
  have ok: "reports_success (fst (update_step example_int 2 (IntArg 0) None (Some ''new'') ''proj'' example_store_found))"
    by (simp add: update_example_findings)
  have ok': "reports_success (fst (update_step example_int 2 (IntArg 0) None (Some []) ''proj'' example_store_found))"
    by (simp add: update_example_empty_findings)
  have a: "\<exists>p'. plan_of 2 ''proj''
        (snd (update_step example_int 2 (IntArg 0) None (Some ''new'') ''proj'' example_store_found)) = Some p' \<and>
       step_findings p' = [''new'', []]"
    using update_step_findings_replace[OF r p surjective_pairing ok]
    by (auto simp: resolve_index_def)
  have b: "\<exists>p'. plan_of 2 ''proj''
        (snd (update_step example_int 2 (IntArg 0) None (Some []) ''proj'' example_store_found)) = Some p' \<and>
       step_findings p' = [''old'', []]"
    using update_step_findings_replace[OF r p surjective_pairing ok']
    by (auto simp: resolve_index_def)
  from ok a b show ?thesis by blast
qed

text \<open>
  Claim C8 as stated fails for the empty string: the call reports success and step 0
  still holds \<open>old\<close>, not the supplied empty string.
\<close>

theorem update_step_empty_findings_counterexample:
  "fst (update_step example_int 2 (IntArg 0) None (Some []) ''proj'' example_store_found) = StepUpdated 0 \<and>
   map_option step_findings (plan_of 2 ''proj'' example_store_found) = Some [''old'', []] \<and>
   map_option step_findings (plan_of 2 ''proj''
      (snd (update_step example_int 2 (IntArg 0) None (Some []) ''proj'' example_store_found)))
     = Some [''old'', []]"
  by (simp add: update_example_empty_findings plan_of_example_store_found)
    (simp add: plan_of_def get_plan_def get_entry_def make_key_def app_name_def)

section \<open>Properties of the transcript store\<close>

lemma normalize_items_filter: "normalize_items items = filter (\<lambda>b. \<not> is_thinking b) items"
  by (induction items rule: normalize_items.induct) simp_all

lemma reconstruct_normalize:
  "reconstruct_message (normalize_message now msg) = spec_unwrap_single_text (spec_remove_thinking msg)"
proof (cases msg)
  case (fields r c)
  show ?thesis
  proof (cases c)
    case (Str str)
    with fields show ?thesis
      by (simp add: normalize_message_def reconstruct_message_def spec_remove_thinking_def
          spec_unwrap_single_text_def)
  next
    case (Blocks items)
    with fields show ?thesis
      by (simp add: normalize_message_def spec_remove_thinking_def normalize_items_filter
          reconstruct_message_def spec_unwrap_single_text_def unwrap_single_def
          split: list.splits block.splits)
  qed
qed

lemma load_lines_json:
  "load_lines (map (\<lambda>msg. JsonLine (f msg)) msgs) = map (\<lambda>msg. reconstruct_message (f msg)) msgs"
  by (induction msgs) simp_all

lemma load_store:
  "load_msgs storage_dir project_dir (store_msgs storage_dir now project_dir h d) = spec_normalized h"
  by (simp add: load_msgs_def store_msgs_def load_lines_json reconstruct_normalize spec_normalized_def)

lemma unwrap_cases:
  "spec_unwrap_single_text m = m \<or>
   (\<exists>t. content m = Blocks [Text t] \<and> spec_unwrap_single_text m = m\<lparr>content := Str t\<rparr>)"
  by (simp add: spec_unwrap_single_text_def split: content.splits list.splits block.splits)

lemma remove_thinking_idem: "spec_remove_thinking (spec_remove_thinking m) = spec_remove_thinking m"
  by (simp add: spec_remove_thinking_def split: content.splits)

lemma remove_thinking_Str: "content m = Str t \<Longrightarrow> spec_remove_thinking m = m"
  by (simp add: spec_remove_thinking_def)

lemma unwrap_Str: "content m = Str t \<Longrightarrow> spec_unwrap_single_text m = m"
  by (simp add: spec_unwrap_single_text_def)

lemma spec_normal_idem:
  "spec_unwrap_single_text (spec_remove_thinking (spec_unwrap_single_text (spec_remove_thinking msg)))
     = spec_unwrap_single_text (spec_remove_thinking msg)"
proof -
  let ?m = "spec_remove_thinking msg"
  from unwrap_cases[of ?m] show ?thesis
  proof
    assume "spec_unwrap_single_text ?m = ?m"
    then show ?thesis by (simp add: remove_thinking_idem)
  next
    assume "\<exists>t. content ?m = Blocks [Text t] \<and> spec_unwrap_single_text ?m = ?m\<lparr>content := Str t\<rparr>"
    then obtain t where u: "spec_unwrap_single_text ?m = ?m\<lparr>content := Str t\<rparr>" by blast
    have c: "content (?m\<lparr>content := Str t\<rparr>) = Str t" by simp
    show ?thesis unfolding u
      by (simp only: remove_thinking_Str[OF c] unwrap_Str[OF c])
  qed
qed

lemma spec_normalized_idem: "spec_normalized (spec_normalized h) = spec_normalized h"
  by (simp add: spec_normalized_def spec_normal_idem)

text \<open>
  Claim C4. Loading a project's transcript right after storing a history \<open>h\<close> yields
  \<open>h\<close> with the thinking blocks removed and single text blocks unwrapped, whatever the
  disk held before and whatever the clock reads; storing and loading that result again
  yields it unchanged.
\<close>

theorem store_load_roundtrip:
  "load_msgs storage_dir project_dir (store_msgs storage_dir now project_dir h d) = spec_normalized h \<and>
   load_msgs storage_dir project_dir
     (store_msgs storage_dir now' project_dir
        (load_msgs storage_dir project_dir (store_msgs storage_dir now project_dir h d)) d')
     = load_msgs storage_dir project_dir (store_msgs storage_dir now project_dir h d)"
  by (simp add: load_store spec_normalized_idem)

section \<open>Properties of the agent loop\<close>

lemma events_of_append: "events_of (es @ fs) = events_of es @ events_of fs"
  by (induction es rule: events_of.induct) simp_all

lemma executed_append: "executed (es @ fs) = executed es @ executed fs"
  by (induction es rule: executed.induct) simp_all

lemma disk_after_append:
  "disk_after sd now pd (es @ fs) d = disk_after sd now pd fs (disk_after sd now pd es d)"
  by (induction es arbitrary: d rule: events_of.induct) simp_all

lemma approval_phase_quiet:
  "approval_phase msgs ds i tbs = (es, ok) \<Longrightarrow>
     executed es = [] \<and> \<not> list_ex is_tool_result_event (events_of es)"
proof (induction tbs arbitrary: i es ok)
  case Nil
  then show ?case by simp
next
  case (Cons tb tbs)
  obtain es1 ok1 where r: "approval_phase msgs ds (Suc i) tbs = (es1, ok1)" by force
  from Cons.IH[OF r] Cons.prems r show ?case
    by (auto split: if_splits)
qed

lemma approval_phase_refused:
  "approval_phase msgs ds i tbs = (es, False) \<Longrightarrow> \<exists>pre. es = pre @ [Store msgs, Emit Cancelled]"
proof (induction tbs arbitrary: i es)
  case Nil
  then show ?case by simp
next
  case (Cons tb tbs)
  obtain es1 ok1 where r: "approval_phase msgs ds (Suc i) tbs = (es1, ok1)" by force
  show ?case
  proof (cases "tu_name tb \<in> DANGEROUS_TOOLS \<and> decision ds i \<noteq> Some True")
    case True
    with Cons.prems have "es = [Emit (ToolCall (tu_name tb) (tu_input tb)),
                   Emit (ApprovalRequest (tu_name tb) (tu_input tb))] @ [Store msgs, Emit Cancelled]"
      by auto
    then show ?thesis by blast
  next
    case False
    with Cons.prems r have ok1: "ok1 = False" by (auto split: if_splits)
    with Cons.IH[of "Suc i" es1] r obtain pre where pre: "es1 = pre @ [Store msgs, Emit Cancelled]" by blast
    from False Cons.prems r ok1 have
      "es = Emit (ToolCall (tu_name tb) (tu_input tb)) # es1 \<or>
       es = Emit (ToolCall (tu_name tb) (tu_input tb)) # Emit (ApprovalRequest (tu_name tb) (tu_input tb)) # es1"
      by (auto split: if_splits)
    with pre show ?thesis by (metis append_Cons)
  qed
qed

lemma approval_phase_denied:
  "i < length tbs \<Longrightarrow> tu_name (tbs ! i) \<in> DANGEROUS_TOOLS \<Longrightarrow> decision ds (k + i) \<noteq> Some True \<Longrightarrow>
     snd (approval_phase msgs ds k tbs) = False"
proof (induction tbs arbitrary: i k)
  case Nil
  then show ?case by simp
next
  case (Cons tb tbs)
  show ?case
  proof (cases i)
    case 0
    with Cons.prems show ?thesis by (simp split: prod.splits)
  next
    case (Suc j)
    with Cons.prems have "snd (approval_phase msgs ds (Suc k) tbs) = False"
      using Cons.IH[of j "Suc k"] by simp
    then show ?thesis by (cases "approval_phase msgs ds (Suc k) tbs") auto
  qed
qed

lemma dispatch_not_Return: "dispatch blocks tbs before cs msgs \<noteq> Return es msgs1"
  by (simp add: dispatch_def split: option.splits)

lemma turn_Return:
  "turn trim tools t msgs = Return es msgs1 \<Longrightarrow>
     msgs1 = msgs \<and> (\<exists>pre. es = pre @ [Store msgs, Emit Cancelled])"
proof -
  assume a: "turn trim tools t msgs = Return es msgs1"
  then obtain blocks where b: "model_call t (trimmed_loop_msgs trim t msgs) = Response blocks"
    by (cases "model_call t (trimmed_loop_msgs trim t msgs)") (auto simp: turn_def)
  let ?local = "filter (\<lambda>tb. tu_name tb \<in> set tools) (tool_uses blocks)"
  obtain aes ok where ap: "approval_phase msgs (decisions t) 0 ?local = (aes, ok)" by force
  from a b have tb: "tool_batch tools t msgs blocks = Return es msgs1"
    by (auto simp: turn_def split: if_splits option.splits)
  with ap have ok: "ok = False" and m: "msgs1 = msgs" and e: "es = preamble blocks @ aes"
    by (auto simp: tool_batch_def Let_def dispatch_not_Return split: if_splits)
  from approval_phase_refused[OF ap[unfolded ok]] obtain pre where pre: "aes = pre @ [Store msgs, Emit Cancelled]"
    by blast
  with e have "es = (preamble blocks @ pre) @ [Store msgs, Emit Cancelled]" by simp
  with m show ?thesis by blast
qed

lemma agent_loop_persists:
  "agent_loop trim tools script msgs = Some (es, msgs') \<Longrightarrow>
     \<exists>pre ev. es = pre @ [Store msgs', Emit ev] \<and> (ev = Done \<or> ev = Cancelled)"
proof (induction script arbitrary: msgs es)
  case Nil
  then show ?case by simp
next
  case (Cons t script)
  show ?case
  proof (cases "turn trim tools t msgs")
    case (Continue es0 msgs1)
    with Cons.prems obtain es1 where r: "agent_loop trim tools script msgs1 = Some (es1, msgs')"
      and e: "es = es0 @ es1"
      by (auto split: option.splits)
    from Cons.IH[OF r] obtain pre ev where "es1 = pre @ [Store msgs', Emit ev]" "ev = Done \<or> ev = Cancelled"
      by blast
    with e have "es = (es0 @ pre) @ [Store msgs', Emit ev] \<and> (ev = Done \<or> ev = Cancelled)" by simp
    then show ?thesis by blast
  next
    case (Break es0 msgs1)
    with Cons.prems have "es = es0 @ [Store msgs', Emit Done]" by auto
    then show ?thesis by blast
  next
    case (Return es0 msgs1)
    with Cons.prems have e: "es = es0" "msgs' = msgs1" by auto
    from turn_Return[OF Return] e show ?thesis by blast
  next
    case (Waiting es0)
    with Cons.prems show ?thesis by simp
  qed
qed

lemma trimmed_loop_msgs_decisions [simp]:
  "trimmed_loop_msgs trim (t\<lparr>decisions := ds\<rparr>) msgs = trimmed_loop_msgs trim t msgs"
  by (simp add: trimmed_loop_msgs_def build_reminders_def)

lemma trimmed_loop_msgs_completions [simp]:
  "trimmed_loop_msgs trim (t\<lparr>completions := cs\<rparr>) msgs = trimmed_loop_msgs trim t msgs"
  by (simp add: trimmed_loop_msgs_def build_reminders_def)

lemma approval_phase_cong:
  "(\<And>i. (decision ds' i = Some True) = (decision ds i = Some True)) \<Longrightarrow>
     approval_phase msgs ds' k tbs = approval_phase msgs ds k tbs"
  by (induction tbs arbitrary: k) simp_all

lemma approval_phase_all_approved:
  "(\<And>i. i < length tbs \<Longrightarrow> tu_name (tbs ! i) \<in> DANGEROUS_TOOLS \<Longrightarrow> decision ds (k + i) = Some True) \<Longrightarrow>
     snd (approval_phase msgs ds k tbs) = True"
proof (induction tbs arbitrary: k)
  case Nil
  show ?case by simp
next
  case (Cons tb tbs)
  have "snd (approval_phase msgs ds (Suc k) tbs) = True"
  proof (rule Cons.IH)
    fix i assume "i < length tbs" "tu_name (tbs ! i) \<in> DANGEROUS_TOOLS"
    with Cons.prems[of "Suc i"] show "decision ds (Suc k + i) = Some True" by simp
  qed
  moreover from Cons.prems[of 0] have "tu_name tb \<in> DANGEROUS_TOOLS \<Longrightarrow> decision ds k = Some True"
    by simp
  ultimately show ?case
    by (cases "approval_phase msgs ds (Suc k) tbs") auto
qed

lemma preamble_quiet:
  "executed (preamble blocks) = [] \<and> \<not> list_ex is_tool_result_event (events_of (preamble blocks)) \<and>
   disk_after sd now pd (preamble blocks) d = d \<and>
   (\<forall>n out. Emit (ToolResultEv n out) \<notin> set (preamble blocks))"
  by (auto simp: preamble_def split: option.splits)

lemma turn_refused:
  assumes "model_call t (trimmed_loop_msgs trim t msgs) = Response blocks"
    and "i < length (filter (\<lambda>tb. tu_name tb \<in> set tools) (tool_uses blocks))"
    and "tu_name (filter (\<lambda>tb. tu_name tb \<in> set tools) (tool_uses blocks) ! i) \<in> DANGEROUS_TOOLS"
    and "decision (decisions t) i \<noteq> Some True"
  shows "\<exists>aes pre. turn trim tools t msgs = Return (preamble blocks @ aes) msgs \<and>
           aes = pre @ [Store msgs, Emit Cancelled] \<and> executed aes = [] \<and>
           \<not> list_ex is_tool_result_event (events_of aes)"
proof -
  let ?local = "filter (\<lambda>tb. tu_name tb \<in> set tools) (tool_uses blocks)"
  obtain aes ok where ap: "approval_phase msgs (decisions t) 0 ?local = (aes, ok)" by force
  from approval_phase_denied[of i ?local "decisions t" 0 msgs] assms(2,3,4) ap
  have ok: "ok = False" by simp
  from assms(2) have ne: "tool_uses blocks \<noteq> []" by auto
  from assms(1) ap ok ne have "turn trim tools t msgs = Return (preamble blocks @ aes) msgs"
    by (simp add: turn_def tool_batch_def Let_def)
  moreover from approval_phase_refused[OF ap[unfolded ok]] obtain pre
    where "aes = pre @ [Store msgs, Emit Cancelled]" by blast
  moreover note approval_phase_quiet[OF ap]
  ultimately show ?thesis by blast
qed

text \<open>
  Claim C2. If the consumer answers no to the approval request of a privileged request
  at some position \<open>i\<close> of the local batch, the iteration ends the generator: no request
  of the batch is executed, no tool\_result event is emitted, the last event is
  \<open>Cancelled\<close>, and what is stored just before it, and read back from the disk, is the
  history as it was before the batch.
\<close>

theorem denial_cancels_batch:
  assumes "model_call t (trimmed_loop_msgs trim t msgs) = Response blocks"
    and "i < length (filter (\<lambda>tb. tu_name tb \<in> set tools) (tool_uses blocks))"
    and "tu_name (filter (\<lambda>tb. tu_name tb \<in> set tools) (tool_uses blocks) ! i) \<in> DANGEROUS_TOOLS"
    and "decision (decisions t) i = Some False"
  shows "\<exists>es. turn trim tools t msgs = Return es msgs \<and>
              agent_loop trim tools (t # script) msgs = Some (es, msgs) \<and>
              executed es = [] \<and>
              \<not> list_ex is_tool_result_event (events_of es) \<and>
              last (events_of es) = Cancelled \<and>
              (\<exists>pre. es = pre @ [Store msgs, Emit Cancelled]) \<and>
              load_msgs storage_dir project_dir (disk_after storage_dir now project_dir es d)
                = spec_normalized msgs"
proof -
  from assms(4) have "decision (decisions t) i \<noteq> Some True" by simp
  from turn_refused[OF assms(1-3) this] obtain aes pre where
    t: "turn trim tools t msgs = Return (preamble blocks @ aes) msgs" and
    a: "aes = pre @ [Store msgs, Emit Cancelled]" and
    q: "executed aes = []" "\<not> list_ex is_tool_result_event (events_of aes)"
    by blast
  let ?es = "preamble blocks @ aes"
  from t have l: "agent_loop trim tools (t # script) msgs = Some (?es, msgs)" by simp
  from q preamble_quiet[of blocks] have x: "executed ?es = []"
    "\<not> list_ex is_tool_result_event (events_of ?es)"
    by (simp_all add: executed_append events_of_append)
  from a have last: "last (events_of ?es) = Cancelled"
    by (simp add: events_of_append)
  from a have shape: "?es = (preamble blocks @ pre) @ [Store msgs, Emit Cancelled]" by simp
  have "load_msgs storage_dir project_dir (disk_after storage_dir now project_dir ?es d)
          = spec_normalized msgs"
    unfolding shape disk_after_append by (simp add: load_store)
  with t l x last shape show ?thesis by blast
qed

text \<open>
  Claim C10. The gate is closed unless opened: a privileged request whose cell is still
  \<open>None\<close> or was set to \<open>False\<close> when the generator resumes cancels the batch with
  nothing executed; if an iteration executes anything, the cell of every privileged
  request of its batch held \<open>True\<close>; and two lists of cell values that agree on which
  cells hold \<open>True\<close> give the same iteration, so \<open>None\<close> and \<open>False\<close> take the same path.
  The cell ranges over the three values the consumer \<^verbatim>\<open>consumeloop\<close> leaves in it.
\<close>

theorem approval_gate_fail_closed:
  "(\<forall>blocks. model_call t (trimmed_loop_msgs trim t msgs) = Response blocks \<longrightarrow>
      (\<forall>i < length (filter (\<lambda>tb. tu_name tb \<in> set tools) (tool_uses blocks)).
         tu_name (filter (\<lambda>tb. tu_name tb \<in> set tools) (tool_uses blocks) ! i) \<in> DANGEROUS_TOOLS \<and>
         (decision (decisions t) i = None \<or> decision (decisions t) i = Some False) \<longrightarrow>
           (\<exists>es. turn trim tools t msgs = Return es msgs \<and> executed es = [] \<and>
                 last (events_of es) = Cancelled))) \<and>
   (executed (step_effects (turn trim tools t msgs)) \<noteq> [] \<longrightarrow>
      (\<forall>blocks. model_call t (trimmed_loop_msgs trim t msgs) = Response blocks \<longrightarrow>
         (\<forall>i < length (filter (\<lambda>tb. tu_name tb \<in> set tools) (tool_uses blocks)).
            tu_name (filter (\<lambda>tb. tu_name tb \<in> set tools) (tool_uses blocks) ! i) \<in> DANGEROUS_TOOLS \<longrightarrow>
              decision (decisions t) i = Some True))) \<and>
   (\<forall>ds'. (\<forall>i. (decision ds' i = Some True) = (decision (decisions t) i = Some True)) \<longrightarrow>
      turn trim tools (t\<lparr>decisions := ds'\<rparr>) msgs = turn trim tools t msgs)"
proof (intro conjI allI impI)
  fix blocks i
  assume r: "model_call t (trimmed_loop_msgs trim t msgs) = Response blocks"
    and i: "i < length (filter (\<lambda>tb. tu_name tb \<in> set tools) (tool_uses blocks))"
    and d: "tu_name (filter (\<lambda>tb. tu_name tb \<in> set tools) (tool_uses blocks) ! i) \<in> DANGEROUS_TOOLS \<and>
         (decision (decisions t) i = None \<or> decision (decisions t) i = Some False)"
  then have "decision (decisions t) i \<noteq> Some True" by auto
  from turn_refused[OF r i _ this] d obtain aes pre where
    t: "turn trim tools t msgs = Return (preamble blocks @ aes) msgs" and
    a: "aes = pre @ [Store msgs, Emit Cancelled]" and
    q: "executed aes = []"
    by blast
  from q preamble_quiet[of blocks] have "executed (preamble blocks @ aes) = []"
    by (simp add: executed_append)
  moreover from a have "last (events_of (preamble blocks @ aes)) = Cancelled"
    by (simp add: events_of_append)
  ultimately show "\<exists>es. turn trim tools t msgs = Return es msgs \<and> executed es = [] \<and>
                 last (events_of es) = Cancelled"
    using t by blast
next
  fix blocks i
  assume x: "executed (step_effects (turn trim tools t msgs)) \<noteq> []"
    and r: "model_call t (trimmed_loop_msgs trim t msgs) = Response blocks"
    and i: "i < length (filter (\<lambda>tb. tu_name tb \<in> set tools) (tool_uses blocks))"
    and d: "tu_name (filter (\<lambda>tb. tu_name tb \<in> set tools) (tool_uses blocks) ! i) \<in> DANGEROUS_TOOLS"
  show "decision (decisions t) i = Some True"
  proof (rule ccontr)
    assume "decision (decisions t) i \<noteq> Some True"
    from turn_refused[OF r i d this] obtain aes where
      t: "turn trim tools t msgs = Return (preamble blocks @ aes) msgs" and q: "executed aes = []"
      by blast
    from q preamble_quiet[of blocks] have "executed (preamble blocks @ aes) = []"
      by (simp add: executed_append)
    with t x show False by (simp add: step_effects_def)
  qed
next
  fix ds'
  assume "\<forall>i. (decision ds' i = Some True) = (decision (decisions t) i = Some True)"
  then have "\<And>k tbs. approval_phase msgs ds' k tbs = approval_phase msgs (decisions t) k tbs"
    by (intro approval_phase_cong) simp
  then have "\<And>blocks. tool_batch tools (t\<lparr>decisions := ds'\<rparr>) msgs blocks = tool_batch tools t msgs blocks"
    by (simp add: tool_batch_def Let_def cong: if_cong)
  then show "turn trim tools (t\<lparr>decisions := ds'\<rparr>) msgs = turn trim tools t msgs"
    by (simp add: turn_def split: response.splits)
qed

lemma tu_fields [simp]:
  "tu_id (i, n, inp) = i" "tu_name (i, n, inp) = n" "tu_input (i, n, inp) = inp"
  by (simp_all add: tu_id_def tu_name_def tu_input_def)

lemma example_locals:
  "filter (\<lambda>tb. tu_name tb \<in> set (tool_names [])) (tool_uses example_batch) =
     [(''t1'', ''read_'', JObj [(''file_path'', JStr ''a.txt'')]),
      (''t2'', ''bash_'', JObj [(''command'', JStr ''ls'')])]"
  by (simp add: example_batch_def tool_names_def default_tools_def)

lemma example_gate_approved:
  "approval_phase msgs [None, Some True] 0
     [(''t1'', ''read_'', JObj [(''file_path'', JStr ''a.txt'')]),
      (''t2'', ''bash_'', JObj [(''command'', JStr ''ls'')])]
   = ([Emit (ToolCall ''read_'' (JObj [(''file_path'', JStr ''a.txt'')])),
       Emit (ToolCall ''bash_'' (JObj [(''command'', JStr ''ls'')])),
       Emit (ApprovalRequest ''bash_'' (JObj [(''command'', JStr ''ls'')]))], True)"
  by (simp add: DANGEROUS_TOOLS_def decision_def)

lemma example_preamble:
  "preamble example_batch = [Emit (ThinkingEv ''look first''), Emit (TextEv ''Reading, then listing.'')]"
  by (simp add: preamble_def example_batch_def)

lemma turn_example_approved:
  "turn keep_all (tool_names []) example_approved msgs =
     Continue
       [Emit (ThinkingEv ''look first''), Emit (TextEv ''Reading, then listing.''),
        Emit (ToolCall ''read_'' (JObj [(''file_path'', JStr ''a.txt'')])),
        Emit (ToolCall ''bash_'' (JObj [(''command'', JStr ''ls'')])),
        Emit (ApprovalRequest ''bash_'' (JObj [(''command'', JStr ''ls'')])),
        Exec (''t1'', ''read_'', JObj [(''file_path'', JStr ''a.txt'')]),
        Exec (''t2'', ''bash_'', JObj [(''command'', JStr ''ls'')]),
        Emit (ToolResultEv ''read_'' (take 500 long_output)),
        Emit (ToolResultEv ''bash_'' ''a.txt'')]
       (msgs @
        [\<lparr>role = ''assistant'',
           content = Blocks [Thinking ''look first'' ''sig'',
                             ToolUse ''t1'' ''read_'' (JObj [(''file_path'', JStr ''a.txt'')]),
                             ToolUse ''t2'' ''bash_'' (JObj [(''command'', JStr ''ls'')])]\<rparr>,
         \<lparr>role = ''user'',
           content = Blocks [ToolResult ''t1'' long_output, ToolResult ''t2'' ''a.txt'']\<rparr>])"
proof -
  have m: "model_call example_approved (trimmed_loop_msgs keep_all example_approved msgs)
             = Response example_batch"
    by (simp add: example_approved_def)
  have u: "tool_uses example_batch \<noteq> []" by (simp add: example_batch_def)
  have d: "decisions example_approved = [None, Some True]"
    "completions example_approved = [(1, RStr ''a.txt''), (0, RStr long_output)]"
    by (simp_all add: example_approved_def)
  have f: "first_thinking example_batch = Some (''look first'', ''sig'')"
    by (simp add: example_batch_def)
  show ?thesis
    by (simp add: turn_def m u tool_batch_def example_locals d example_gate_approved dispatch_def
        gather_def example_preamble assistant_blocks_def f discovery_def
        DANGEROUS_TOOLS_def decision_def)
qed

lemma turn_example_answer:
  "turn keep_all (tool_names []) example_answer msgs =
     Break [Store (msgs @ [\<lparr>role = ''assistant'', content = Str ''One file: a.txt''\<rparr>]),
            Emit (FinalText ''One file: a.txt'')]
       (msgs @ [\<lparr>role = ''assistant'', content = Str ''One file: a.txt''\<rparr>])"
  by (simp add: turn_def example_answer_def preamble_def)

text \<open>
  The batch of \<^verbatim>\<open>read_\<close> and \<^verbatim>\<open>bash_\<close> with the approval of \<^verbatim>\<open>bash_\<close> refused.
\<close>

theorem denial_cancels_batch_witness:
  "\<exists>es. turn keep_all (tool_names []) example_denied example_history = Return es example_history \<and>
      agent_loop keep_all (tool_names []) (example_denied # [example_answer]) example_history
        = Some (es, example_history) \<and>
      executed es = [] \<and>
      \<not> list_ex is_tool_result_event (events_of es) \<and>
      last (events_of es) = Cancelled \<and>
      (\<exists>pre. es = pre @ [Store example_history, Emit Cancelled]) \<and>
      load_msgs example_dir ''proj'' (disk_after example_dir ''2026-01-01T00:00:00'' ''proj'' es Map.empty)
        = spec_normalized example_history"
proof (rule denial_cancels_batch[where blocks = example_batch and i = 1])
  show "model_call example_denied (trimmed_loop_msgs keep_all example_denied example_history)
          = Response example_batch"
    by (simp add: example_denied_def)
  show "1 < length (filter (\<lambda>tb. tu_name tb \<in> set (tool_names [])) (tool_uses example_batch))"
    by (simp add: example_locals)
  show "tu_name (filter (\<lambda>tb. tu_name tb \<in> set (tool_names [])) (tool_uses example_batch) ! 1)
          \<in> DANGEROUS_TOOLS"
    by (simp add: example_locals DANGEROUS_TOOLS_def)
  show "decision (decisions example_denied) 1 = Some False"
    by (simp add: example_denied_def decision_def)
qed

lemma those_map_Some:
  "(\<And>x. x \<in> set xs \<Longrightarrow> f x \<noteq> None) \<Longrightarrow> those (map f xs) = Some (map (\<lambda>x. the (f x)) xs)"
proof (induction xs)
  case Nil
  show ?case by simp
next
  case (Cons a xs)
  from Cons.prems[of a] obtain y where y: "f a = Some y" by auto
  from Cons.IH Cons.prems have "those (map f xs) = Some (map (\<lambda>x. the (f x)) xs)" by simp
  with y show ?case by simp
qed

lemma gather_complete:
  assumes "fst ` set cs = {..<n}"
  shows "gather n cs = Some (map (\<lambda>i. the (map_of cs i)) [0..<n])"
  unfolding gather_def
proof (rule those_map_Some)
  fix i assume "i \<in> set [0..<n]"
  with assms have "i \<in> fst ` set cs" by simp
  then show "map_of cs i \<noteq> None" by (simp add: map_of_eq_None_iff)
qed

lemma fold_results_blocks:
  "snd (fold_results tbs rs) = map (\<lambda>(tb, r). ToolResult (tu_id tb) (result_content r)) (zip tbs rs)"
  by (induction tbs rs rule: fold_results.induct) (auto split: prod.splits)

lemma fold_results_events:
  "filter is_tool_result_event (events_of (fst (fold_results tbs rs)))
     = map (\<lambda>(tb, r). ToolResultEv (tu_name tb) (take 500 (py_str r))) (zip tbs rs)"
  by (induction tbs rs rule: fold_results.induct)
    (auto simp: events_of_append discovery_def split: prod.splits result.splits)

lemma fold_results_short:
  "Emit (ToolResultEv name out) \<in> set (fst (fold_results tbs rs)) \<Longrightarrow> length out \<le> 500"
  by (induction tbs rs rule: fold_results.induct)
    (auto simp: discovery_def split: prod.splits result.splits if_splits)

lemma fold_results_executes_nothing: "executed (fst (fold_results tbs rs)) = []"
  by (induction tbs rs rule: fold_results.induct)
    (auto simp: executed_append discovery_def split: prod.splits result.splits)

lemma executed_map_Exec: "executed (map Exec tbs) = tbs"
  by (induction tbs) simp_all

lemma no_result_event_in_Exec: "Emit ev \<notin> set (map Exec tbs)"
  by (induction tbs) simp_all

lemma events_of_map_Exec: "events_of (map Exec tbs) = []"
  by (induction tbs) simp_all

lemma Emit_in_events: "Emit ev \<in> set es \<longleftrightarrow> ev \<in> set (events_of es)"
  by (induction es rule: events_of.induct) auto

lemma approval_phase_no_result_event:
  "Emit (ToolResultEv name out) \<notin> set (fst (approval_phase msgs ds k tbs))"
proof -
  obtain es ok where ap: "approval_phase msgs ds k tbs = (es, ok)" by force
  from approval_phase_quiet[OF ap] have "\<not> list_ex is_tool_result_event (events_of es)" by simp
  then have "ToolResultEv name out \<notin> set (events_of es)" by (auto simp: list_ex_iff)
  with ap show ?thesis by (simp add: Emit_in_events)
qed

lemma turn_dispatched:
  assumes "model_call t (trimmed_loop_msgs trim t msgs) = Response blocks"
    and "local = filter (\<lambda>tb. tu_name tb \<in> set tools) (tool_uses blocks)"
    and "local \<noteq> []"
    and "\<forall>i<length local. tu_name (local ! i) \<in> DANGEROUS_TOOLS \<longrightarrow> decision (decisions t) i = Some True"
    and "gather (length local) (completions t) = Some rs"
  shows "turn trim tools t msgs =
           Continue
             ((preamble blocks @ fst (approval_phase msgs (decisions t) 0 local))
                @ map Exec local @ fst (fold_results local rs))
             (msgs @ [\<lparr>role = ''assistant'',
                        content = Blocks (assistant_blocks (first_thinking blocks) local)\<rparr>,
                      \<lparr>role = ''user'',
                        content = Blocks (map (\<lambda>(tb, r). ToolResult (tu_id tb) (result_content r))
                                            (zip local rs))\<rparr>])"
proof -
  from assms(4) have gate: "snd (approval_phase msgs (decisions t) 0 local) = True"
    by (intro approval_phase_all_approved) simp
  from assms(2,3) have ne: "tool_uses blocks \<noteq> []" by auto
  from assms(1) ne have "turn trim tools t msgs = tool_batch tools t msgs blocks"
    by (simp add: turn_def)
  also from gate assms(2) have "\<dots> = dispatch blocks local
      (preamble blocks @ fst (approval_phase msgs (decisions t) 0 local)) (completions t) msgs"
    by (simp add: tool_batch_def Let_def)
  also from assms(3,5) have "\<dots> = Continue
             ((preamble blocks @ fst (approval_phase msgs (decisions t) 0 local))
                @ map Exec local @ fst (fold_results local rs))
             (msgs @ [\<lparr>role = ''assistant'',
                        content = Blocks (assistant_blocks (first_thinking blocks) local)\<rparr>,
                      \<lparr>role = ''user'',
                        content = Blocks (snd (fold_results local rs))\<rparr>])"
    by (simp add: dispatch_def)
  finally show ?thesis by (simp add: fold_results_blocks)
qed

text \<open>
  Claim C9, amended. When a local batch is dispatched, each tool\_result event carries
  the first 500 characters of \<^verbatim>\<open>str(result)\<close>, so at most 500; the tool\_result block
  folded into the history carries the whole text of the result (line 275 does not
  truncate: the limit is one of display).
\<close>

theorem tool_result_event_truncated:
  assumes "model_call t (trimmed_loop_msgs trim t msgs) = Response blocks"
    and "local = filter (\<lambda>tb. tu_name tb \<in> set tools) (tool_uses blocks)"
    and "local \<noteq> []"
    and "\<forall>i<length local. tu_name (local ! i) \<in> DANGEROUS_TOOLS \<longrightarrow> decision (decisions t) i = Some True"
    and "gather (length local) (completions t) = Some rs"
  shows "\<exists>es. turn trim tools t msgs =
             Continue es
               (msgs @ [\<lparr>role = ''assistant'',
                          content = Blocks (assistant_blocks (first_thinking blocks) local)\<rparr>,
                        \<lparr>role = ''user'',
                          content = Blocks (map (\<lambda>(tb, r). ToolResult (tu_id tb) (result_content r))
                                              (zip local rs))\<rparr>]) \<and>
           filter is_tool_result_event (events_of es)
             = map (\<lambda>(tb, r). ToolResultEv (tu_name tb) (take 500 (py_str r))) (zip local rs) \<and>
           (\<forall>name out. Emit (ToolResultEv name out) \<in> set es \<longrightarrow> length out \<le> 500)"
proof -
  let ?gate = "fst (approval_phase msgs (decisions t) 0 local)"
  let ?es = "(preamble blocks @ ?gate) @ map Exec local @ fst (fold_results local rs)"
  obtain aes ok where ap: "approval_phase msgs (decisions t) 0 local = (aes, ok)" by force
  note q = approval_phase_quiet[OF ap] preamble_quiet[of blocks]
  have ev: "filter is_tool_result_event (events_of ?es)
             = map (\<lambda>(tb, r). ToolResultEv (tu_name tb) (take 500 (py_str r))) (zip local rs)"
    using q ap
    by (simp add: events_of_append events_of_map_Exec fold_results_events list_ex_iff filter_empty_conv)
  have short: "\<forall>name out. Emit (ToolResultEv name out) \<in> set ?es \<longrightarrow> length out \<le> 500"
    using preamble_quiet[of blocks] approval_phase_no_result_event[of _ _ msgs "decisions t" 0 local]
      no_result_event_in_Exec[of _ local] fold_results_short[of _ _ local rs]
    by auto
  from turn_dispatched[OF assms] ev short show ?thesis by blast
qed

lemma length_long_output: "length long_output = 501"
  by (simp add: long_output_def)

lemma example_approved_facts:
  "model_call example_approved (trimmed_loop_msgs keep_all example_approved msgs) = Response example_batch"
  "decisions example_approved = [None, Some True]"
  "completions example_approved = [(1, RStr ''a.txt''), (0, RStr long_output)]"
  by (simp_all add: example_approved_def)

lemma example_approved_decided:
  "\<forall>i<length [(''t1'', ''read_'', JObj [(''file_path'', JStr ''a.txt'')]),
               (''t2'', ''bash_'', JObj [(''command'', JStr ''ls'')])].
     tu_name ([(''t1'', ''read_'', JObj [(''file_path'', JStr ''a.txt'')]),
               (''t2'', ''bash_'', JObj [(''command'', JStr ''ls'')])] ! i) \<in> DANGEROUS_TOOLS
       \<longrightarrow> decision (decisions example_approved) i = Some True"
  by (simp add: example_approved_facts decision_def DANGEROUS_TOOLS_def less_Suc_eq numeral_2_eq_2)

lemma example_gather2:
  "gather (length [(''t1'', ''read_'', JObj [(''file_path'', JStr ''a.txt'')]),
                   (''t2'', ''bash_'', JObj [(''command'', JStr ''ls'')])])
     (completions example_approved) = Some [RStr long_output, RStr ''a.txt'']"
  by (simp add: example_approved_facts gather_def)

text \<open>
  The approved batch: the event of \<^verbatim>\<open>read_\<close> is cut to 500 characters, the block
  in the history holds the output itself.
\<close>

theorem tool_result_event_truncated_witness:
  "\<exists>es. turn keep_all (tool_names []) example_approved example_history =
       Continue es
         (example_history @
          [\<lparr>role = ''assistant'',
             content = Blocks [Thinking ''look first'' ''sig'',
                               ToolUse ''t1'' ''read_'' (JObj [(''file_path'', JStr ''a.txt'')]),
                               ToolUse ''t2'' ''bash_'' (JObj [(''command'', JStr ''ls'')])]\<rparr>,
           \<lparr>role = ''user'',
             content = Blocks [ToolResult ''t1'' long_output, ToolResult ''t2'' ''a.txt'']\<rparr>]) \<and>
     filter is_tool_result_event (events_of es)
       = [ToolResultEv ''read_'' (take 500 long_output), ToolResultEv ''bash_'' ''a.txt'']"
  using tool_result_event_truncated[OF example_approved_facts(1) example_locals[symmetric] _
      example_approved_decided example_gather2, of example_history]
  by (auto simp: assistant_blocks_def example_batch_def)

text \<open>
  Claim C9 as stated fails for the history: the output of \<^verbatim>\<open>read_\<close> has 501
  characters and the tool\_result block appended to the history holds all of them.
\<close>

theorem history_result_not_truncated_counterexample:
  "turn keep_all (tool_names []) example_approved example_history =
     Continue
       [Emit (ThinkingEv ''look first''), Emit (TextEv ''Reading, then listing.''),
        Emit (ToolCall ''read_'' (JObj [(''file_path'', JStr ''a.txt'')])),
        Emit (ToolCall ''bash_'' (JObj [(''command'', JStr ''ls'')])),
        Emit (ApprovalRequest ''bash_'' (JObj [(''command'', JStr ''ls'')])),
        Exec (''t1'', ''read_'', JObj [(''file_path'', JStr ''a.txt'')]),
        Exec (''t2'', ''bash_'', JObj [(''command'', JStr ''ls'')]),
        Emit (ToolResultEv ''read_'' (take 500 long_output)),
        Emit (ToolResultEv ''bash_'' ''a.txt'')]
       (example_history @
        [\<lparr>role = ''assistant'',
           content = Blocks [Thinking ''look first'' ''sig'',
                             ToolUse ''t1'' ''read_'' (JObj [(''file_path'', JStr ''a.txt'')]),
                             ToolUse ''t2'' ''bash_'' (JObj [(''command'', JStr ''ls'')])]\<rparr>,
         \<lparr>role = ''user'',
           content = Blocks [ToolResult ''t1'' long_output, ToolResult ''t2'' ''a.txt'']\<rparr>]) \<and>
   length long_output = 501 \<and> \<not> length long_output \<le> 500"
  by (simp add: turn_example_approved length_long_output)

lemma gather_reordered:
  "distinct (map fst cs) \<Longrightarrow> distinct (map fst cs') \<Longrightarrow> set cs' = set cs \<Longrightarrow>
     gather n cs' = gather n cs"
proof -
  assume "distinct (map fst cs)" "distinct (map fst cs')" "set cs' = set cs"
  then have "map_of cs' = map_of cs" by (simp add: map_of_inject_set)
  then show ?thesis by (simp add: gather_def)
qed

lemma zip_upt_map: "zip xs (map f [0..<length xs]) = map (\<lambda>i. (xs ! i, f i)) [0..<length xs]"
  by (rule nth_equalityI) simp_all

text \<open>
  Claim C7. When every privileged request of a non-empty local batch is approved and
  every task completes, in whatever order, the history grows by the assistant message
  of the batch and by one message whose tool\_result blocks stand in the order of the
  requests, the block at position \<open>i\<close> holding the id of request \<open>i\<close> and the result of
  its own task; all requests of the batch are executed; and any other order of
  completion of the same tasks gives the same iteration. The concurrent execution is
  represented by the order in which the tasks complete.
\<close>

theorem results_folded_in_request_order:
  assumes "model_call t (trimmed_loop_msgs trim t msgs) = Response blocks"
    and "local = filter (\<lambda>tb. tu_name tb \<in> set tools) (tool_uses blocks)"
    and "local \<noteq> []"
    and "\<forall>i<length local. tu_name (local ! i) \<in> DANGEROUS_TOOLS \<longrightarrow> decision (decisions t) i = Some True"
    and "distinct (map fst (completions t))"
    and "fst ` set (completions t) = {..<length local}"
    and "distinct (map fst cs')"
    and "set cs' = set (completions t)"
  shows "(\<exists>es. turn trim tools t msgs =
             Continue es
               (msgs @ [\<lparr>role = ''assistant'',
                          content = Blocks (assistant_blocks (first_thinking blocks) local)\<rparr>,
                        \<lparr>role = ''user'',
                          content = Blocks (map (\<lambda>i. ToolResult (tu_id (local ! i))
                                                   (result_content (the (map_of (completions t) i))))
                                              [0..<length local])\<rparr>]) \<and>
              executed es = local) \<and>
         turn trim tools (t\<lparr>completions := cs'\<rparr>) msgs = turn trim tools t msgs"
proof -
  let ?rs = "map (\<lambda>i. the (map_of (completions t) i)) [0..<length local]"
  from gather_complete[OF assms(6)] have g: "gather (length local) (completions t) = Some ?rs" .
  let ?gate = "fst (approval_phase msgs (decisions t) 0 local)"
  let ?es = "(preamble blocks @ ?gate) @ map Exec local @ fst (fold_results local ?rs)"
  obtain aes ok where ap: "approval_phase msgs (decisions t) 0 local = (aes, ok)" by force
  have ex: "executed ?es = local"
    using approval_phase_quiet[OF ap] preamble_quiet[of blocks] ap
    by (simp add: executed_append executed_map_Exec fold_results_executes_nothing)
  have blocks_eq: "map (\<lambda>(tb, r). ToolResult (tu_id tb) (result_content r)) (zip local ?rs)
      = map (\<lambda>i. ToolResult (tu_id (local ! i)) (result_content (the (map_of (completions t) i))))
          [0..<length local]"
    by (simp add: zip_upt_map)
  from turn_dispatched[OF assms(1-4) g] ex blocks_eq
  have first: "\<exists>es. turn trim tools t msgs =
             Continue es
               (msgs @ [\<lparr>role = ''assistant'',
                          content = Blocks (assistant_blocks (first_thinking blocks) local)\<rparr>,
                        \<lparr>role = ''user'',
                          content = Blocks (map (\<lambda>i. ToolResult (tu_id (local ! i))
                                                   (result_content (the (map_of (completions t) i))))
                                              [0..<length local])\<rparr>]) \<and>
              executed es = local"
    by auto
  from gather_reordered[OF assms(5,7,8)]
  have "\<And>n. gather n cs' = gather n (completions t)" .
  then have "\<And>bs. tool_batch tools (t\<lparr>completions := cs'\<rparr>) msgs bs = tool_batch tools t msgs bs"
    by (simp add: tool_batch_def Let_def dispatch_def cong: if_cong)
  then have second: "turn trim tools (t\<lparr>completions := cs'\<rparr>) msgs = turn trim tools t msgs"
    by (simp add: turn_def split: response.splits)
  from first second show ?thesis by (rule conjI)
qed

text \<open>
  The approved batch, in which \<^verbatim>\<open>bash_\<close> completes before \<^verbatim>\<open>read_\<close>: the results
  stand in request order, and the other order of completion changes nothing.
\<close>

theorem results_folded_in_request_order_witness:
  "(\<exists>es. turn keep_all (tool_names []) example_approved example_history =
       Continue es
         (example_history @
          [\<lparr>role = ''assistant'',
             content = Blocks [Thinking ''look first'' ''sig'',
                               ToolUse ''t1'' ''read_'' (JObj [(''file_path'', JStr ''a.txt'')]),
                               ToolUse ''t2'' ''bash_'' (JObj [(''command'', JStr ''ls'')])]\<rparr>,
           \<lparr>role = ''user'',
             content = Blocks [ToolResult ''t1'' long_output, ToolResult ''t2'' ''a.txt'']\<rparr>]) \<and>
       executed es = [(''t1'', ''read_'', JObj [(''file_path'', JStr ''a.txt'')]),
                      (''t2'', ''bash_'', JObj [(''command'', JStr ''ls'')])]) \<and>
   turn keep_all (tool_names [])
     (example_approved\<lparr>completions := [(0, RStr long_output), (1, RStr ''a.txt'')]\<rparr>) example_history
     = turn keep_all (tool_names []) example_approved example_history"
proof -
  have d: "distinct (map fst (completions example_approved))"
    by (simp add: example_approved_facts)
  have c: "fst ` set (completions example_approved)
             = {..<length [(''t1'', ''read_'', JObj [(''file_path'', JStr ''a.txt'')]),
                           (''t2'', ''bash_'', JObj [(''command'', JStr ''ls'')])]}"
    by (auto simp: example_approved_facts)
  have d': "distinct (map fst [(0::nat, RStr long_output), (1, RStr ''a.txt'')])" by simp
  have s': "set [(0::nat, RStr long_output), (1, RStr ''a.txt'')] = set (completions example_approved)"
    by (auto simp: example_approved_facts)
  from results_folded_in_request_order[OF example_approved_facts(1) example_locals[symmetric] _
      example_approved_decided d c d' s', of example_history]
  show ?thesis
    by (simp add: assistant_blocks_def example_batch_def example_approved_facts numeral_2_eq_2)
qed

text \<open>
  With the cell of \<^verbatim>\<open>bash_\<close> left unwritten the batch is cancelled exactly as with
  the refusal; the approved batch is executed and its cell held \<open>True\<close>.
\<close>

theorem approval_gate_fail_closed_witness:
  "(\<exists>es. turn keep_all (tool_names []) (example_denied\<lparr>decisions := [None, None]\<rparr>) example_history
            = Return es example_history \<and> executed es = [] \<and> last (events_of es) = Cancelled) \<and>
   turn keep_all (tool_names []) (example_denied\<lparr>decisions := [None, None]\<rparr>) example_history
     = turn keep_all (tool_names []) example_denied example_history \<and>
   executed (step_effects (turn keep_all (tool_names []) example_approved example_history)) \<noteq> [] \<and>
   decision (decisions example_approved) 1 = Some True"
proof -
  let ?unanswered = "example_denied\<lparr>decisions := [None, None]\<rparr>"
  have m: "model_call ?unanswered (trimmed_loop_msgs keep_all ?unanswered example_history)
             = Response example_batch"
    by (simp add: example_denied_def)
  have i: "1 < length (filter (\<lambda>tb. tu_name tb \<in> set (tool_names [])) (tool_uses example_batch))"
    by (simp add: example_locals)
  have p: "tu_name (filter (\<lambda>tb. tu_name tb \<in> set (tool_names [])) (tool_uses example_batch) ! 1)
             \<in> DANGEROUS_TOOLS \<and>
           (decision (decisions ?unanswered) 1 = None \<or> decision (decisions ?unanswered) 1 = Some False)"
    by (simp add: example_locals DANGEROUS_TOOLS_def decision_def)
  from approval_gate_fail_closed[of ?unanswered keep_all example_history "tool_names []",
      THEN conjunct1, rule_format, OF m i p]
  have a: "\<exists>es. turn keep_all (tool_names []) ?unanswered example_history
            = Return es example_history \<and> executed es = [] \<and> last (events_of es) = Cancelled" .
  have same: "\<forall>i. (decision [None, None] i = Some True)
                 = (decision (decisions example_denied) i = Some True)"
    by (simp add: decision_def example_denied_def less_Suc_eq numeral_2_eq_2 nth_Cons')
  from approval_gate_fail_closed[of example_denied keep_all example_history "tool_names []",
      THEN conjunct2, THEN conjunct2, THEN spec, of "[None, None]", THEN mp, OF same]
  have b: "turn keep_all (tool_names []) ?unanswered example_history
             = turn keep_all (tool_names []) example_denied example_history" .
  have x: "executed (step_effects (turn keep_all (tool_names []) example_approved example_history)) \<noteq> []"
    by (simp add: turn_example_approved step_effects_def)
  from approval_gate_fail_closed[of example_approved keep_all example_history "tool_names []",
      THEN conjunct2, THEN conjunct1, rule_format, OF x example_approved_facts(1), of 1]
  have c: "decision (decisions example_approved) 1 = Some True"
    by (simp add: example_locals DANGEROUS_TOOLS_def)
  from a b x c show ?thesis by blast
qed

section \<open>Properties of the context budgeter\<close>

declare token_cutter.simps [simp del]

lemma drop_oldest_cases:
  "drop_oldest (m # ms) = Some shorter \<Longrightarrow>
     (is_system m \<and> (\<exists>rest. drop_oldest ms = Some rest \<and> shorter = m # rest)) \<or>
     (\<not> is_system m \<and> shorter = ms \<and>
        \<not> (\<exists>r rest. ms = r # rest \<and> has_tool_use m \<and> \<not> is_system r \<and> has_tool_result r)) \<or>
     (\<not> is_system m \<and> has_tool_use m \<and>
        (\<exists>r. ms = r # shorter \<and> \<not> is_system r \<and> has_tool_result r))"
  by (auto split: if_splits list.splits)

lemma drop_oldest_systems:
  "drop_oldest msgs = Some shorter \<Longrightarrow> filter is_system shorter = filter is_system msgs"
proof (induction msgs arbitrary: shorter)
  case Nil
  then show ?case by simp
next
  case (Cons m ms)
  from drop_oldest_cases[OF Cons.prems] show ?case
  proof (elim disjE conjE exE)
    fix rest assume "is_system m" "drop_oldest ms = Some rest" "shorter = m # rest"
    with Cons.IH[of rest] show ?thesis by simp
  next
    assume "\<not> is_system m" "shorter = ms"
    then show ?thesis by simp
  next
    fix r assume "\<not> is_system m" "ms = r # shorter" "\<not> is_system r"
    then show ?thesis by simp
  qed
qed

lemma drop_oldest_subseq:
  "drop_oldest msgs = Some shorter \<Longrightarrow> subseq shorter msgs"
proof (induction msgs arbitrary: shorter)
  case Nil
  then show ?case by simp
next
  case (Cons m ms)
  from drop_oldest_cases[OF Cons.prems] show ?case
  proof (elim disjE conjE exE)
    fix rest assume "is_system m" "drop_oldest ms = Some rest" "shorter = m # rest"
    with Cons.IH[of rest] show ?thesis by simp
  next
    assume "\<not> is_system m" "shorter = ms"
    then show ?thesis by (simp add: list_emb_Cons)
  next
    fix r assume "\<not> is_system m" "ms = r # shorter" "\<not> is_system r"
    then show ?thesis by (simp add: list_emb_Cons)
  qed
qed

lemma drop_oldest_suffix:
  "drop_oldest msgs = Some shorter \<Longrightarrow>
     suffix (filter (\<lambda>m. \<not> is_system m) shorter) (filter (\<lambda>m. \<not> is_system m) msgs)"
proof (induction msgs arbitrary: shorter)
  case Nil
  then show ?case by simp
next
  case (Cons m ms)
  from drop_oldest_cases[OF Cons.prems] show ?case
  proof (elim disjE conjE exE)
    fix rest assume "is_system m" "drop_oldest ms = Some rest" "shorter = m # rest"
    with Cons.IH[of rest] show ?thesis by simp
  next
    assume "\<not> is_system m" "shorter = ms"
    then show ?thesis by (simp add: suffix_ConsI)
  next
    fix r assume "\<not> is_system m" "ms = r # shorter" "\<not> is_system r"
    then show ?thesis by (simp add: suffix_ConsI)
  qed
qed

lemma drop_oldest_None: "drop_oldest msgs = None \<Longrightarrow> filter is_system msgs = msgs"
proof (induction msgs)
  case Nil
  show ?case by simp
next
  case (Cons m ms)
  show ?case
  proof (cases "is_system m")
    case True
    with Cons.prems have "drop_oldest ms = None" by simp
    with Cons.IH True show ?thesis by simp
  next
    case False
    with Cons.prems have False by (cases ms) (simp_all split: if_splits)
    then show ?thesis ..
  qed
qed

lemma well_paired_plain:
  "\<not> has_tool_use m \<Longrightarrow> well_paired (m # ms) \<longleftrightarrow> \<not> has_tool_result m \<and> well_paired ms"
  by (cases ms) auto

lemma well_paired_system: "is_system m \<Longrightarrow> well_paired (m # ms) \<Longrightarrow> \<not> has_tool_use m"
  by (cases ms) (auto split: if_splits)

lemma drop_oldest_paired:
  "drop_oldest msgs = Some shorter \<Longrightarrow> well_paired msgs \<Longrightarrow> well_paired shorter"
proof (induction msgs arbitrary: shorter)
  case Nil
  then show ?case by simp
next
  case (Cons m ms)
  from drop_oldest_cases[OF Cons.prems(1)] show ?case
  proof (elim disjE conjE exE)
    fix rest
    assume s: "is_system m" and r: "drop_oldest ms = Some rest" and e: "shorter = m # rest"
    from well_paired_system[OF s Cons.prems(2)] have n: "\<not> has_tool_use m" .
    with Cons.prems(2) have "\<not> has_tool_result m" "well_paired ms"
      by (simp_all add: well_paired_plain)
    with Cons.IH[OF r] n e show ?thesis by (simp add: well_paired_plain)
  next
    assume n: "\<not> is_system m" and e: "shorter = ms"
      and u: "\<not> (\<exists>r rest. ms = r # rest \<and> has_tool_use m \<and> \<not> is_system r \<and> has_tool_result r)"
    show ?thesis
    proof (cases "has_tool_use m")
      case True
      with Cons.prems(2) u have False
        by (cases ms) (auto simp: has_tool_use_def has_tool_result_def request_ids_def)
      then show ?thesis ..
    next
      case False
      with Cons.prems(2) e show ?thesis by (simp add: well_paired_plain)
    qed
  next
    fix r
    assume "has_tool_use m" and "ms = r # shorter"
    with Cons.prems(2) show ?thesis by simp
  qed
qed

text \<open>
  Claim C3, amended. For every message sequence, tokenizer and budget, the result of
  \<^verbatim>\<open>token_cutter\<close> is an ordered subsequence of the input; it keeps every system
  message; the non-system messages it keeps are the most recent ones (a suffix of the
  input's, so the oldest are dropped first); a well-paired input gives a well-paired
  result, so no request stands without its result and no result without its request;
  and the encoded token count of the result is at most the budget whenever the system
  messages of the input fit the budget by themselves. When the result exceeds the
  budget, it is exactly the system messages.
\<close>

theorem token_cutter_trims:
  "subseq (token_cutter tok budget msgs) msgs \<and>
   filter is_system (token_cutter tok budget msgs) = filter is_system msgs \<and>
   suffix (filter (\<lambda>m. \<not> is_system m) (token_cutter tok budget msgs))
          (filter (\<lambda>m. \<not> is_system m) msgs) \<and>
   (well_paired msgs \<longrightarrow> well_paired (token_cutter tok budget msgs)) \<and>
   (token_count tok (filter is_system msgs) \<le> budget \<longrightarrow>
      token_count tok (token_cutter tok budget msgs) \<le> budget) \<and>
   (budget < token_count tok (token_cutter tok budget msgs) \<longrightarrow>
      token_cutter tok budget msgs = filter is_system msgs)"
proof (induction tok budget msgs rule: token_cutter.induct)
  case (1 tok budget msgs)
  show ?case
  proof (cases "token_count tok msgs \<le> budget")
    case True
    then have "token_cutter tok budget msgs = msgs" by (subst token_cutter.simps) simp
    with True show ?thesis by simp
  next
    case False
    show ?thesis
    proof (cases "drop_oldest msgs")
      case None
      with False have e: "token_cutter tok budget msgs = msgs" by (subst token_cutter.simps) simp
      from drop_oldest_None[OF None] have "filter is_system msgs = msgs" .
      with e False show ?thesis by simp
    next
      case (Some shorter)
      with False have e: "token_cutter tok budget msgs = token_cutter tok budget shorter"
        by (subst token_cutter.simps) simp
      note ih = "1.IH"[OF False Some]
      note sys = drop_oldest_systems[OF Some]
      from ih drop_oldest_subseq[OF Some]
      have a: "subseq (token_cutter tok budget shorter) msgs"
        using subseq_order.trans by blast
      from ih drop_oldest_suffix[OF Some]
      have c: "suffix (filter (\<lambda>m. \<not> is_system m) (token_cutter tok budget shorter))
                 (filter (\<lambda>m. \<not> is_system m) msgs)"
        using suffix_order.trans by blast
      from ih drop_oldest_paired[OF Some]
      have d: "well_paired msgs \<longrightarrow> well_paired (token_cutter tok budget shorter)" by blast
      from a c d ih sys show ?thesis unfolding e by simp
    qed
  qed
qed

lemma example_paired_ok: "well_paired example_paired"
  by (simp add: example_paired_def has_tool_use_def has_tool_result_def message_blocks_def
      request_ids_def is_system_def tu_id_def)

lemma example_paired_systems:
  "filter is_system example_paired = [\<lparr>role = ''system'', content = Str ''You are micro claude code''\<rparr>]"
  by (simp add: example_paired_def is_system_def)

lemma example_cut_5:
  "token_cutter ten_each 5 example_paired =
     [\<lparr>role = ''system'', content = Str ''You are micro claude code''\<rparr>]"
  by (simp add: token_cutter.simps example_paired_def token_count_def ten_each_def is_system_def
      has_tool_use_def has_tool_result_def message_blocks_def)

text \<open>
  The example history cut to 35 tokens: the question and the request/result pair go,
  the system prompt and the answer stay.
\<close>

theorem token_cutter_trims_witness:
  "well_paired example_paired \<and>
   token_count ten_each (filter is_system example_paired) \<le> 35 \<and>
   subseq (token_cutter ten_each 35 example_paired) example_paired \<and>
   filter is_system (token_cutter ten_each 35 example_paired) = filter is_system example_paired \<and>
   suffix (filter (\<lambda>m. \<not> is_system m) (token_cutter ten_each 35 example_paired))
          (filter (\<lambda>m. \<not> is_system m) example_paired) \<and>
   well_paired (token_cutter ten_each 35 example_paired) \<and>
   token_count ten_each (token_cutter ten_each 35 example_paired) \<le> 35"
proof -
  have fits: "token_count ten_each (filter is_system example_paired) \<le> 35"
    by (simp add: example_paired_systems token_count_def ten_each_def)
  from token_cutter_trims[of ten_each 35 example_paired] example_paired_ok fits
  show ?thesis by blast
qed

text \<open>
  Claim C3 as stated fails when the system messages alone exceed the budget: with a
  budget of 5 the system prompt of 10 tokens is kept, as it must be, and the count of
  the result is 10.
\<close>

theorem token_cutter_over_budget_counterexample:
  "token_cutter ten_each 5 example_paired =
     [\<lparr>role = ''system'', content = Str ''You are micro claude code''\<rparr>] \<and>
   token_count ten_each (token_cutter ten_each 5 example_paired) = 10 \<and>
   \<not> token_count ten_each (token_cutter ten_each 5 example_paired) \<le> 5"
  by (simp add: example_cut_5 token_count_def ten_each_def)

section \<open>Properties of the agent loop: the history that is persisted\<close>

lemma preamble_plain:
  "Store x \<notin> set (preamble blocks) \<and> Emit (FinalText reply) \<notin> set (preamble blocks)"
  by (auto simp: preamble_def split: option.splits)

lemma approval_phase_stores:
  "approval_phase msgs ds k tbs = (es, ok) \<Longrightarrow>
     (Store x \<in> set es \<longrightarrow> x = msgs \<and> \<not> ok) \<and> Emit (FinalText reply) \<notin> set es"
proof (induction tbs arbitrary: k es ok)
  case Nil
  then show ?case by auto
next
  case (Cons tb tbs)
  obtain es1 ok1 where r: "approval_phase msgs ds (Suc k) tbs = (es1, ok1)" by force
  from Cons.IH[OF r] Cons.prems r show ?case
    by (auto split: if_splits)
qed

lemma fold_results_plain:
  "Store x \<notin> set (fst (fold_results tbs rs)) \<and> Emit (FinalText reply) \<notin> set (fst (fold_results tbs rs))"
  by (induction tbs rs rule: fold_results.induct)
    (auto simp: discovery_def split: prod.splits result.splits if_splits)

lemma map_Exec_plain: "Store x \<notin> set (map Exec tbs) \<and> Emit ev \<notin> set (map Exec tbs)"
  by (induction tbs) simp_all

lemma dispatch_Continue:
  assumes "dispatch blocks tbs before cs h = Continue es h1"
  shows "prefix h h1 \<and> set es \<subseteq> set before \<union> set (map Exec tbs) \<union>
           (\<Union>rs. set (fst (fold_results tbs rs)))"
  using assms by (auto simp: dispatch_def split: option.splits if_splits)

lemma dispatch_not_Break: "dispatch blocks tbs before cs h \<noteq> Break es h1"
  by (simp add: dispatch_def split: option.splits)

lemma tool_batch_Continue:
  assumes "tool_batch tools t h blocks = Continue es h1"
  shows "prefix h h1 \<and> Store x \<notin> set es \<and> Emit (FinalText reply) \<notin> set es"
proof -
  let ?local = "filter (\<lambda>tb. tu_name tb \<in> set tools) (tool_uses blocks)"
  obtain aes ok where ap: "approval_phase h (decisions t) 0 ?local = (aes, ok)" by force
  from assms ap have ok: "ok" and
    d: "dispatch blocks ?local (preamble blocks @ aes) (completions t) h = Continue es h1"
    by (auto simp: tool_batch_def Let_def split: if_splits)
  from approval_phase_stores[OF ap, of x reply] ok
  have a: "Store x \<notin> set aes" "Emit (FinalText reply) \<notin> set aes" by auto
  from dispatch_Continue[OF d] preamble_plain[of x blocks reply] a
    map_Exec_plain[of x "?local" "FinalText reply"] fold_results_plain[of x "?local" _ reply]
  show ?thesis by auto
qed

lemma tool_batch_not_Break: "tool_batch tools t h blocks \<noteq> Break es h1"
  by (simp add: tool_batch_def Let_def dispatch_not_Break)

lemma turn_Continue:
  assumes "turn trim tools t h = Continue es h1"
  shows "prefix h h1 \<and> Store x \<notin> set es \<and> Emit (FinalText reply) \<notin> set es"
proof (cases "model_call t (trimmed_loop_msgs trim t h)")
  case (Failure e)
  with assms show ?thesis by (simp add: turn_def)
next
  case (Response blocks)
  show ?thesis
  proof (cases "tool_uses blocks \<noteq> []")
    case True
    with assms Response have "tool_batch tools t h blocks = Continue es h1" by (simp add: turn_def)
    from tool_batch_Continue[OF this] show ?thesis .
  next
    case False
    with assms Response have "es = preamble blocks" "h1 = h"
      by (auto simp: turn_def split: option.splits)
    with preamble_plain[of x blocks reply] show ?thesis by simp
  qed
qed

lemma turn_Break:
  assumes "turn trim tools t h = Break es h1"
  shows "prefix h h1 \<and> (Store x \<in> set es \<longrightarrow> x = h1) \<and>
         (Emit (FinalText reply) \<in> set es \<longrightarrow> h1 = h @ [\<lparr>role = ''assistant'', content = Str reply\<rparr>])"
proof (cases "model_call t (trimmed_loop_msgs trim t h)")
  case (Failure e)
  with assms show ?thesis by (auto simp: turn_def)
next
  case (Response blocks)
  show ?thesis
  proof (cases "tool_uses blocks \<noteq> []")
    case True
    with assms Response have "tool_batch tools t h blocks = Break es h1" by (simp add: turn_def)
    with tool_batch_not_Break show ?thesis by blast
  next
    case False
    with assms Response obtain answer where
      "es = preamble blocks @ [Store (h @ [\<lparr>role = ''assistant'', content = Str answer\<rparr>]),
                               Emit (FinalText answer)]"
      "h1 = h @ [\<lparr>role = ''assistant'', content = Str answer\<rparr>]"
      by (auto simp: turn_def split: option.splits)
    with preamble_plain[of x blocks reply] show ?thesis by auto
  qed
qed

lemma turn_Return_stores:
  assumes "turn trim tools t h = Return es h1"
  shows "h1 = h \<and> (Store x \<in> set es \<longrightarrow> x = h) \<and> Emit (FinalText reply) \<notin> set es"
proof -
  from assms obtain blocks where b: "model_call t (trimmed_loop_msgs trim t h) = Response blocks"
    by (cases "model_call t (trimmed_loop_msgs trim t h)") (auto simp: turn_def)
  let ?local = "filter (\<lambda>tb. tu_name tb \<in> set tools) (tool_uses blocks)"
  obtain aes ok where ap: "approval_phase h (decisions t) 0 ?local = (aes, ok)" by force
  from assms b have tb: "tool_batch tools t h blocks = Return es h1"
    by (auto simp: turn_def split: if_splits option.splits)
  with ap have m: "h1 = h" and e: "es = preamble blocks @ aes"
    by (auto simp: tool_batch_def Let_def dispatch_not_Return split: if_splits)
  from approval_phase_stores[OF ap, of x reply] preamble_plain[of x blocks reply] e m
  show ?thesis by auto
qed

lemma agent_loop_history:
  "agent_loop trim tools script h = Some (es, h') \<Longrightarrow>
     leaves_with trim tools script h h' \<and> prefix h h' \<and>
     (\<forall>x. Store x \<in> set es \<longrightarrow> prefix h x \<and> prefix x h') \<and>
     (\<forall>reply. Emit (FinalText reply) \<in> set es \<longrightarrow>
        h' \<noteq> [] \<and> last h' = \<lparr>role = ''assistant'', content = Str reply\<rparr>)"
proof (induction script arbitrary: h es)
  case Nil
  then show ?case by simp
next
  case (Cons t script)
  show ?case
  proof (cases "turn trim tools t h")
    case (Continue es0 h1)
    with Cons.prems obtain es1 where r: "agent_loop trim tools script h1 = Some (es1, h')"
      and e: "es = es0 @ es1"
      by (auto split: option.splits)
    note ih = Cons.IH[OF r]
    note tc = turn_Continue[OF Continue]
    from tc have p: "prefix h h1" by simp
    from ih p have p': "prefix h h'" using prefix_order.trans by blast
    have st: "\<forall>x. Store x \<in> set es \<longrightarrow> prefix h x \<and> prefix x h'"
    proof (intro allI impI)
      fix x assume "Store x \<in> set es"
      with e tc[of x] have "Store x \<in> set es1" by auto
      with ih have "prefix h1 x" "prefix x h'" by simp_all
      with p show "prefix h x \<and> prefix x h'" using prefix_order.trans by blast
    qed
    have ft: "\<forall>reply. Emit (FinalText reply) \<in> set es \<longrightarrow>
        h' \<noteq> [] \<and> last h' = \<lparr>role = ''assistant'', content = Str reply\<rparr>"
    proof (intro allI impI)
      fix reply assume "Emit (FinalText reply) \<in> set es"
      with e tc[of _ reply] have "Emit (FinalText reply) \<in> set es1" by auto
      with ih show "h' \<noteq> [] \<and> last h' = \<lparr>role = ''assistant'', content = Str reply\<rparr>" by simp
    qed
    from ih have "leaves_with trim tools script h1 h'" by simp
    from leaves_with.went_round[OF Continue this] p' st ft show ?thesis by simp
  next
    case (Break es0 h1)
    with Cons.prems have e: "es = es0 @ [Store h1, Emit Done]" "h' = h1" by auto
    note tb = turn_Break[OF Break]
    from tb have p: "prefix h h1" by simp
    have st: "\<forall>x. Store x \<in> set es \<longrightarrow> prefix h x \<and> prefix x h'"
      using e tb p by auto
    have ft: "\<forall>reply. Emit (FinalText reply) \<in> set es \<longrightarrow>
        h' \<noteq> [] \<and> last h' = \<lparr>role = ''assistant'', content = Str reply\<rparr>"
      using e tb by auto
    from leaves_with.by_break[OF Break] e p st ft show ?thesis by simp
  next
    case (Return es0 h1)
    with Cons.prems have e: "es = es0" "h' = h1" by auto
    note tr = turn_Return_stores[OF Return]
    have st: "\<forall>x. Store x \<in> set es \<longrightarrow> prefix h x \<and> prefix x h'"
      using e tr by auto
    have ft: "\<forall>reply. Emit (FinalText reply) \<in> set es \<longrightarrow>
        h' \<noteq> [] \<and> last h' = \<lparr>role = ''assistant'', content = Str reply\<rparr>"
      using e tr by auto
    from leaves_with.by_return[OF Return] e tr st ft show ?thesis by simp
  next
    case (Waiting es0)
    with Cons.prems show ?thesis by simp
  qed
qed


text \<open>
  Claim C1. Whenever the generator ends (with a final answer, after a refused approval
  or after a failed model call), the last thing it did before its last event was to
  store the history it had accumulated: the trace ends with \<open>Store msgs\<close> and one event,
  \<open>Done\<close> or \<open>Cancelled\<close>, and the transcript read back from the disk afterwards is
  \<open>msgs\<close> as the store normalizes it. That history \<open>msgs\<close> is the accumulated one: it
  begins with the transcript loaded at the start (or the system prompt, when there was
  none) followed by the user's query; it is the history with which the iterations of
  the run, each starting from what the one before left, leave the loop; every history
  stored during the run extends the starting one and is extended by \<open>msgs\<close>; and after a
  final answer its last message is that answer.
\<close>

theorem history_persisted_on_exit:
  assumes "claude_loop storage_dir trim discovered_tools system_prompt d query project_dir script
             = Some (es, msgs)"
  shows "(\<exists>pre ev. es = pre @ [Store msgs, Emit ev] \<and> (ev = Done \<or> ev = Cancelled)) \<and>
         load_msgs storage_dir project_dir (disk_after storage_dir now project_dir es d)
           = spec_normalized msgs \<and>
         prefix ((if load_msgs storage_dir project_dir d = []
                  then [\<lparr>role = ''system'', content = Str system_prompt\<rparr>]
                  else load_msgs storage_dir project_dir d) @ [user_message query]) msgs \<and>
         leaves_with trim (tool_names discovered_tools) script
           ((if load_msgs storage_dir project_dir d = []
             then [\<lparr>role = ''system'', content = Str system_prompt\<rparr>]
             else load_msgs storage_dir project_dir d) @ [user_message query]) msgs \<and>
         (\<forall>h. Store h \<in> set es \<longrightarrow>
            prefix ((if load_msgs storage_dir project_dir d = []
                     then [\<lparr>role = ''system'', content = Str system_prompt\<rparr>]
                     else load_msgs storage_dir project_dir d) @ [user_message query]) h \<and>
            prefix h msgs) \<and>
         (\<forall>reply. Emit (FinalText reply) \<in> set es \<longrightarrow>
            msgs \<noteq> [] \<and> last msgs = \<lparr>role = ''assistant'', content = Str reply\<rparr>)"
proof -
  let ?start = "(if load_msgs storage_dir project_dir d = []
                 then [\<lparr>role = ''system'', content = Str system_prompt\<rparr>]
                 else load_msgs storage_dir project_dir d) @ [user_message query]"
  from assms obtain es1 where
    e: "es = Emit (Status ''starting...'') # es1" and
    r: "agent_loop trim (tool_names discovered_tools) script ?start = Some (es1, msgs)"
    by (auto simp: claude_loop_def Let_def split: option.splits)
  from agent_loop_persists[OF r] obtain pre ev where
    p: "es1 = pre @ [Store msgs, Emit ev]" "ev = Done \<or> ev = Cancelled" by blast
  with e have es: "es = (Emit (Status ''starting...'') # pre) @ [Store msgs, Emit ev]" by simp
  have l: "load_msgs storage_dir project_dir (disk_after storage_dir now project_dir es d)
             = spec_normalized msgs"
    unfolding es disk_after_append by (simp add: load_store)
  note h = agent_loop_history[OF r]
  from h e have st: "\<forall>h. Store h \<in> set es \<longrightarrow> prefix ?start h \<and> prefix h msgs" by simp
  from h e have ft: "\<forall>reply. Emit (FinalText reply) \<in> set es \<longrightarrow>
            msgs \<noteq> [] \<and> last msgs = \<lparr>role = ''assistant'', content = Str reply\<rparr>" by simp
  from h have a: "prefix ?start msgs" "leaves_with trim (tool_names discovered_tools) script ?start msgs"
    by simp_all
  from es p(2) have shape: "\<exists>pre ev. es = pre @ [Store msgs, Emit ev] \<and> (ev = Done \<or> ev = Cancelled)"
    by blast
  from shape l a st ft show ?thesis by (intro conjI)
qed

lemma example_loaded: "load_msgs example_dir ''proj'' example_disk = example_history"
  by (simp add: example_disk_def load_store spec_normalized_def spec_remove_thinking_def
      spec_unwrap_single_text_def example_history_def user_message_def)

lemma example_run:
  "claude_loop example_dir keep_all [] ''You are micro claude code'' example_disk ''and in detail?''
       ''proj'' [example_approved, example_answer]
   = Some ([Emit (Status ''starting...''),
            Emit (ThinkingEv ''look first''), Emit (TextEv ''Reading, then listing.''),
            Emit (ToolCall ''read_'' (JObj [(''file_path'', JStr ''a.txt'')])),
            Emit (ToolCall ''bash_'' (JObj [(''command'', JStr ''ls'')])),
            Emit (ApprovalRequest ''bash_'' (JObj [(''command'', JStr ''ls'')])),
            Exec (''t1'', ''read_'', JObj [(''file_path'', JStr ''a.txt'')]),
            Exec (''t2'', ''bash_'', JObj [(''command'', JStr ''ls'')]),
            Emit (ToolResultEv ''read_'' (take 500 long_output)),
            Emit (ToolResultEv ''bash_'' ''a.txt''),
            Store example_final_history,
            Emit (FinalText ''One file: a.txt''),
            Store example_final_history,
            Emit Done],
           example_final_history)"
proof -
  have ne: "example_history \<noteq> []" by (simp add: example_history_def)
  show ?thesis
    by (simp add: claude_loop_def example_loaded ne turn_example_approved turn_example_answer
        example_final_history_def)
qed

text \<open>
  A second query on a project with a stored transcript: one approved batch, then the
  final answer. The trace and the final history are written out; the transcript on the
  disk afterwards is that history, which begins with the old transcript and the query.
\<close>

theorem history_persisted_on_exit_witness:
  "claude_loop example_dir keep_all [] ''You are micro claude code'' example_disk ''and in detail?''
       ''proj'' [example_approved, example_answer]
   = Some ([Emit (Status ''starting...''),
            Emit (ThinkingEv ''look first''), Emit (TextEv ''Reading, then listing.''),
            Emit (ToolCall ''read_'' (JObj [(''file_path'', JStr ''a.txt'')])),
            Emit (ToolCall ''bash_'' (JObj [(''command'', JStr ''ls'')])),
            Emit (ApprovalRequest ''bash_'' (JObj [(''command'', JStr ''ls'')])),
            Exec (''t1'', ''read_'', JObj [(''file_path'', JStr ''a.txt'')]),
            Exec (''t2'', ''bash_'', JObj [(''command'', JStr ''ls'')]),
            Emit (ToolResultEv ''read_'' (take 500 long_output)),
            Emit (ToolResultEv ''bash_'' ''a.txt''),
            Store example_final_history,
            Emit (FinalText ''One file: a.txt''),
            Store example_final_history,
            Emit Done],
           example_final_history) \<and>
   load_msgs example_dir ''proj''
     (disk_after example_dir ''2026-01-01T00:00:00'' ''proj''
        [Emit (Status ''starting...''),
         Emit (ThinkingEv ''look first''), Emit (TextEv ''Reading, then listing.''),
         Emit (ToolCall ''read_'' (JObj [(''file_path'', JStr ''a.txt'')])),
         Emit (ToolCall ''bash_'' (JObj [(''command'', JStr ''ls'')])),
         Emit (ApprovalRequest ''bash_'' (JObj [(''command'', JStr ''ls'')])),
         Exec (''t1'', ''read_'', JObj [(''file_path'', JStr ''a.txt'')]),
         Exec (''t2'', ''bash_'', JObj [(''command'', JStr ''ls'')]),
         Emit (ToolResultEv ''read_'' (take 500 long_output)),
         Emit (ToolResultEv ''bash_'' ''a.txt''),
         Store example_final_history,
         Emit (FinalText ''One file: a.txt''),
         Store example_final_history,
         Emit Done]
        example_disk)
     = spec_normalized example_final_history \<and>
   prefix (example_history @ [user_message ''and in detail?'']) example_final_history \<and>
   leaves_with keep_all (tool_names []) [example_approved, example_answer]
     (example_history @ [user_message ''and in detail?'']) example_final_history \<and>
   last example_final_history = \<lparr>role = ''assistant'', content = Str ''One file: a.txt''\<rparr>"
proof -
  have ne: "example_history \<noteq> []" by (simp add: example_history_def)
  note t = history_persisted_on_exit[OF example_run, of "''2026-01-01T00:00:00''"]
  from t have l: "load_msgs example_dir ''proj''
     (disk_after example_dir ''2026-01-01T00:00:00'' ''proj''
        [Emit (Status ''starting...''),
         Emit (ThinkingEv ''look first''), Emit (TextEv ''Reading, then listing.''),
         Emit (ToolCall ''read_'' (JObj [(''file_path'', JStr ''a.txt'')])),
         Emit (ToolCall ''bash_'' (JObj [(''command'', JStr ''ls'')])),
         Emit (ApprovalRequest ''bash_'' (JObj [(''command'', JStr ''ls'')])),
         Exec (''t1'', ''read_'', JObj [(''file_path'', JStr ''a.txt'')]),
         Exec (''t2'', ''bash_'', JObj [(''command'', JStr ''ls'')]),
         Emit (ToolResultEv ''read_'' (take 500 long_output)),
         Emit (ToolResultEv ''bash_'' ''a.txt''),
         Store example_final_history,
         Emit (FinalText ''One file: a.txt''),
         Store example_final_history,
         Emit Done]
        example_disk)
     = spec_normalized example_final_history"
    by (elim conjE)
  from t ne have p: "prefix (example_history @ [user_message ''and in detail?'']) example_final_history"
    by (simp add: example_loaded)
  from t ne have w: "leaves_with keep_all (tool_names []) [example_approved, example_answer]
     (example_history @ [user_message ''and in detail?'']) example_final_history"
    by (simp add: example_loaded)
  from t have f: "last example_final_history = \<lparr>role = ''assistant'', content = Str ''One file: a.txt''\<rparr>"
    by simp
  from example_run l p w f show ?thesis by (intro conjI)
qed

end
